theory Spec2Isabelle
  imports Main "HOL-Library.Monad_Syntax"
begin

section \<open>Strings of the host language\<close>

text \<open>
  The script \<^verbatim>\<open>mutate.js\<close> works on JavaScript strings. A document is modelled as a
  \<^typ>\<open>string\<close>, each \<^typ>\<open>char\<close> standing for one code unit in the range 0..255.
  In that range the characters that \<^verbatim>\<open>\s\<close> and \<^verbatim>\<open>String.prototype.trim\<close> treat as
  white space are TAB, LF, VT, FF, CR, SPACE and NBSP; the line terminators that the
  regular-expression dot refuses are LF and CR; \<^verbatim>\<open>\d\<close> is an ASCII digit.
\<close>

definition isSpace :: "char \<Rightarrow> bool" where
  "isSpace c \<longleftrightarrow> c \<in> {CHR 0x09, CHR 0x0A, CHR 0x0B, CHR 0x0C, CHR 0x0D, CHR 0x20, CHR 0xA0}"

definition isLineTerminator :: "char \<Rightarrow> bool" where
  "isLineTerminator c \<longleftrightarrow> c = CHR 0x0A \<or> c = CHR 0x0D"

definition isDigit :: "char \<Rightarrow> bool" where
  "isDigit c \<longleftrightarrow> c \<in> set ''0123456789''"

text \<open>\<^verbatim>\<open>s.split('\n')\<close>: the pieces between line feeds; never an empty array.\<close>

fun split_nl :: "string \<Rightarrow> string list" where
  "split_nl [] = [[]]"
| "split_nl (c # cs) =
     (if c = CHR 0x0A then [] # split_nl cs
      else (case split_nl cs of [] \<Rightarrow> [[c]] | l # ls \<Rightarrow> (c # l) # ls))"

text \<open>\<^verbatim>\<open>lines.join('\n')\<close>: the empty array joins to the empty string.\<close>

fun join_nl :: "string list \<Rightarrow> string" where
  "join_nl [] = []"
| "join_nl [l] = l"
| "join_nl (l # ls) = l @ CHR 0x0A # join_nl ls"

definition trim :: "string \<Rightarrow> string" where
  "trim s = rev (dropWhile isSpace (rev (dropWhile isSpace s)))"

definition startsWith :: "string \<Rightarrow> string \<Rightarrow> bool" where
  "startsWith s p \<longleftrightarrow> take (length p) s = p"

text \<open>\<^verbatim>\<open>s.includes(t)\<close>: \<open>t\<close> occurs in \<open>s\<close> as a contiguous substring.\<close>

fun includes_str :: "string \<Rightarrow> string \<Rightarrow> bool" where
  "includes_str [] t \<longleftrightarrow> t = []"
| "includes_str (c # cs) t \<longleftrightarrow> startsWith (c # cs) t \<or> includes_str cs t"

section \<open>Backtracking regular expressions\<close>

text \<open>
  A regular expression is run the way the engine runs it: every piece maps the text
  that is left to the list of texts that may be left after it, in the order in which
  backtracking tries them, and the match is the first entry of the composed list.
  All quantifiers of the script apply to a single character class.
\<close>

definition lit :: "string \<Rightarrow> string \<Rightarrow> string list" where
  "lit p s = (if startsWith s p then [drop (length p) s] else [])"

text \<open>Greedy \<^verbatim>\<open>c*\<close> (\<open>n = 0\<close>) and \<^verbatim>\<open>c+\<close> (\<open>n = 1\<close>): longest run first.\<close>

definition greedy :: "(char \<Rightarrow> bool) \<Rightarrow> nat \<Rightarrow> string \<Rightarrow> string list" where
  "greedy P n s = map (\<lambda>k. drop k s) (rev [n ..< Suc (length (takeWhile P s))])"

text \<open>A capturing lazy \<^verbatim>\<open>(c*?)\<close> or \<^verbatim>\<open>(c+?)\<close>: shortest run first, with the text captured.\<close>

definition lazyGroup :: "(char \<Rightarrow> bool) \<Rightarrow> nat \<Rightarrow> string \<Rightarrow> (string \<times> string) list" where
  "lazyGroup P n s = map (\<lambda>k. (take k s, drop k s)) [n ..< Suc (length (takeWhile P s))]"

text \<open>A capturing greedy \<^verbatim>\<open>(c+)\<close>.\<close>

definition greedyGroup :: "(char \<Rightarrow> bool) \<Rightarrow> nat \<Rightarrow> string \<Rightarrow> (string \<times> string) list" where
  "greedyGroup P n s = map (\<lambda>k. (take k s, drop k s)) (rev [n ..< Suc (length (takeWhile P s))])"

definition atEnd :: "string \<Rightarrow> unit list" where
  "atEnd s = (if s = [] then [()] else [])"

definition firstMatch :: "'a list \<Rightarrow> 'a option" where
  "firstMatch rs = (case rs of [] \<Rightarrow> None | r # _ \<Rightarrow> Some r)"

text \<open>An expression without \<^verbatim>\<open>^\<close> is tried at every start position, leftmost first.\<close>

fun search :: "(string \<Rightarrow> 'a list) \<Rightarrow> string \<Rightarrow> 'a option" where
  "search m [] = firstMatch (m [])"
| "search m (c # cs) = (case m (c # cs) of r # _ \<Rightarrow> Some r | [] \<Rightarrow> search m cs)"

section \<open>Section table\<close>

definition SECTION_MAP :: "(string \<times> string) list" where
  "SECTION_MAP =
    [(''CONFIG'', ''CONFIG''),
     (''SKETCH_HELPERS'', ''SKETCH HELPERS''),
     (''CANVAS'', ''CANVAS''),
     (''STATE'', ''STATE''),
     (''INPUT'', ''INPUT''),
     (''UPGRADES'', ''UPGRADES''),
     (''PLAYER_UPDATE'', ''PLAYER UPDATE''),
     (''ENEMIES'', ''ENEMIES''),
     (''PROJECTILES'', ''PROJECTILES''),
     (''KILL_XP'', ''KILL / XP''),
     (''PARTICLES'', ''PARTICLES''),
     (''DRAW'', ''DRAW''),
     (''HUD'', ''HUD''),
     (''GAME_OVER'', ''GAME OVER''),
     (''AUDIO'', ''AUDIO''),
     (''DEXSCREENER_GROWTH'', ''DEXSCREENER + GROWTH SYSTEM''),
     (''GAME_LOOP'', ''GAME LOOP''),
     (''START_RESTART'', ''START / RESTART''),
     (''INIT'', ''INIT'')]"

text \<open>
  \<^verbatim>\<open>SECTION_MAP\<close> is an object literal, so \<^verbatim>\<open>SECTION_MAP[key]\<close> is a property read:
  an own key gives its string, a key that \<^verbatim>\<open>Object.prototype\<close> defines gives the
  inherited member (a function, or the prototype object for \<^verbatim>\<open>__proto__\<close>), and any
  other key gives \<^verbatim>\<open>undefined\<close>.
\<close>

datatype jsvalue = JSUndefined | JSString string | JSInherited string

definition OBJECT_PROTOTYPE_KEYS :: "string list" where
  "OBJECT_PROTOTYPE_KEYS =
    [''constructor'', ''__defineGetter__'', ''__defineSetter__'', ''hasOwnProperty'',
     ''__lookupGetter__'', ''__lookupSetter__'', ''isPrototypeOf'',
     ''propertyIsEnumerable'', ''toString'', ''valueOf'', ''__proto__'',
     ''toLocaleString'']"

definition getProperty :: "string \<Rightarrow> jsvalue" where
  "getProperty key =
     (case map_of SECTION_MAP key of
        Some v \<Rightarrow> JSString v
      | None \<Rightarrow> if key \<in> set OBJECT_PROTOTYPE_KEYS then JSInherited key else JSUndefined)"

text \<open>\<^verbatim>\<open>!v\<close>: of the values a property read can give here, \<^verbatim>\<open>undefined\<close> and the
  empty string are falsy.\<close>

fun falsy :: "jsvalue \<Rightarrow> bool" where
  "falsy JSUndefined \<longleftrightarrow> True"
| "falsy (JSString s) \<longleftrightarrow> s = []"
| "falsy (JSInherited _) \<longleftrightarrow> False"

text \<open>\<^verbatim>\<open>/^\s*\/\/ =+ (.+?) =+\s*$/\<close>, applied to one line; the result is \<^verbatim>\<open>match[1]\<close>.\<close>

definition SECTION_BANNER_RE :: "string \<Rightarrow> string option" where
  "SECTION_BANNER_RE line = firstMatch (do {
     s1 \<leftarrow> greedy isSpace 0 line;
     s2 \<leftarrow> lit ''// '' s1;
     s3 \<leftarrow> greedy (\<lambda>c. c = CHR ''='') 1 s2;
     s4 \<leftarrow> lit '' '' s3;
     (name, s5) \<leftarrow> lazyGroup (\<lambda>c. \<not> isLineTerminator c) 1 s4;
     s6 \<leftarrow> lit '' '' s5;
     s7 \<leftarrow> greedy (\<lambda>c. c = CHR ''='') 1 s6;
     s8 \<leftarrow> greedy isSpace 0 s7;
     _ \<leftarrow> atEnd s8;
     [name]
   })"

section \<open>Section parser\<close>

record section_obj =
  bannerLine :: string
  bannerName :: string
  bodyLines :: "string list"

record parsed =
  preScriptLines :: "string list"
  sections :: "section_obj list"
  postScriptLines :: "string list"

text \<open>The variables of the loop of \<^verbatim>\<open>parseIntoSections\<close>.\<close>

record parse_state =
  ps_sections :: "section_obj list"
  currentSection :: "section_obj option"
  ps_pre :: "string list"
  ps_post :: "string list"
  inPreamble :: bool

definition push_current :: "parse_state \<Rightarrow> section_obj list" where
  "push_current st =
     (case currentSection st of None \<Rightarrow> ps_sections st | Some cur \<Rightarrow> ps_sections st @ [cur])"

text \<open>The loop over \<^verbatim>\<open>lines[i], lines[i+1], ...\<close>; the argument is \<^verbatim>\<open>lines.slice(i)\<close>.\<close>

fun parse_loop :: "string list \<Rightarrow> parse_state \<Rightarrow> parse_state" where
  "parse_loop [] st = st"
| "parse_loop (l # ls) st =
     (case SECTION_BANNER_RE l of
        Some name \<Rightarrow>
          parse_loop ls (st\<lparr>inPreamble := False,
            ps_sections := push_current st,
            currentSection := Some \<lparr>bannerLine = l, bannerName = name, bodyLines = []\<rparr>\<rparr>)
      | None \<Rightarrow>
          (case currentSection st of
             Some cur \<Rightarrow>
               if trim l = ''</script>''
               then st\<lparr>ps_sections := ps_sections st @ [cur], currentSection := None,
                        ps_post := l # ls\<rparr>
               else parse_loop ls (st\<lparr>currentSection := Some (cur\<lparr>bodyLines := bodyLines cur @ [l]\<rparr>)\<rparr>)
           | None \<Rightarrow>
               if inPreamble st then parse_loop ls (st\<lparr>ps_pre := ps_pre st @ [l]\<rparr>)
               else parse_loop ls st))"

definition parse_init :: parse_state where
  "parse_init = \<lparr>ps_sections = [], currentSection = None, ps_pre = [], ps_post = [],
                 inPreamble = True\<rparr>"

definition parseIntoSections :: "string \<Rightarrow> parsed" where
  "parseIntoSections html =
     (let st = parse_loop (split_nl html) parse_init
      in \<lparr>preScriptLines = ps_pre st, sections = push_current st, postScriptLines = ps_post st\<rparr>)"

section \<open>Section applier\<close>

record change =
  sectionName :: string
  content :: string

text \<open>
  The two errors that \<^verbatim>\<open>applySectionChanges\<close> throws:
  \<^verbatim>\<open>Unknown section name: ${change.sectionName}\<close> and
  \<^verbatim>\<open>Section not found in index.html: "${bannerName}"\<close>.
\<close>

datatype apply_error = UnknownSectionName string | SectionNotFound jsvalue

fun find_index :: "('a \<Rightarrow> bool) \<Rightarrow> 'a list \<Rightarrow> nat option" where
  "find_index P [] = None"
| "find_index P (x # xs) = (if P x then Some 0 else map_option Suc (find_index P xs))"

text \<open>
  The loop over the changes. \<^verbatim>\<open>find\<close> gives the first section whose name is strictly
  equal to the value read from the table, and the assignment to \<^verbatim>\<open>section.bodyLines\<close>
  changes that element of \<^verbatim>\<open>parsed.sections\<close> in place.
\<close>

fun apply_changes :: "section_obj list \<Rightarrow> change list \<Rightarrow> apply_error + section_obj list" where
  "apply_changes ss [] = Inr ss"
| "apply_changes ss (c # cs) =
     (let bn = getProperty (sectionName c) in
      if falsy bn then Inl (UnknownSectionName (sectionName c))
      else (case find_index (\<lambda>s. JSString (bannerName s) = bn) ss of
              None \<Rightarrow> Inl (SectionNotFound bn)
            | Some i \<Rightarrow>
                apply_changes (ss[i := (ss ! i)\<lparr>bodyLines := split_nl (content c)\<rparr>]) cs))"

definition allLines :: "string list \<Rightarrow> section_obj list \<Rightarrow> string list \<Rightarrow> string list" where
  "allLines pre ss post = pre @ concat (map (\<lambda>s. bannerLine s # bodyLines s) ss) @ post"

definition applySectionChanges :: "string \<Rightarrow> change list \<Rightarrow> apply_error + string" where
  "applySectionChanges html sectionChanges =
     (let p = parseIntoSections html in
      case apply_changes (sections p) sectionChanges of
        Inl e \<Rightarrow> Inl e
      | Inr ss \<Rightarrow> Inr (join_nl (allLines (preScriptLines p) ss (postScriptLines p))))"

section \<open>Version helpers\<close>

text \<open>\<^verbatim>\<open>/Arena Survivor v(\d+\.\d+)/\<close>; the result is \<^verbatim>\<open>m[1]\<close>, or \<^verbatim>\<open>'0.00'\<close>.\<close>

definition getCurrentVersion :: "string \<Rightarrow> string" where
  "getCurrentVersion html =
     (case search (\<lambda>s. do {
             s1 \<leftarrow> lit ''Arena Survivor v'' s;
             (major, s2) \<leftarrow> greedyGroup isDigit 1 s1;
             s3 \<leftarrow> lit ''.'' s2;
             (minor, s4) \<leftarrow> greedyGroup isDigit 1 s3;
             [major @ ''.'' @ minor]
           }) html of
        Some v \<Rightarrow> v
      | None \<Rightarrow> ''0.00'')"

text \<open>\<^verbatim>\<open>/Arena Survivor v[\d.]+/\<close> at one start position: the texts left after a match.\<close>

definition isVersionChar :: "char \<Rightarrow> bool" where
  "isVersionChar c \<longleftrightarrow> isDigit c \<or> c = CHR ''.''"

definition VERSION_TOKEN_RE :: "string \<Rightarrow> string list" where
  "VERSION_TOKEN_RE s = do {
     s1 \<leftarrow> lit ''Arena Survivor v'' s;
     greedy isVersionChar 1 s1
   }"

text \<open>
  The replacement text of \<^verbatim>\<open>String.prototype.replace\<close> is a pattern: \<^verbatim>\<open>$$\<close> stands for a
  dollar sign, \<^verbatim>\<open>$&\<close> for the matched text, \<^verbatim>\<open>$`\<close> for the text before the match and
  \<^verbatim>\<open>$'\<close> for the text after it. The expression has no capture group, so \<^verbatim>\<open>$1\<close> and
  \<^verbatim>\<open>$<name>\<close> stay as they are.
\<close>

fun getSubstitution :: "string \<Rightarrow> string \<Rightarrow> string \<Rightarrow> string \<Rightarrow> string" where
  "getSubstitution [] matched preceding following = []"
| "getSubstitution [c] matched preceding following = [c]"
| "getSubstitution (c # d # t) matched preceding following =
     (if c = CHR ''$'' \<and> d = CHR ''$'' then CHR ''$'' # getSubstitution t matched preceding following
      else if c = CHR ''$'' \<and> d = CHR ''&'' then matched @ getSubstitution t matched preceding following
      else if c = CHR ''$'' \<and> d = CHR 0x60 then preceding @ getSubstitution t matched preceding following
      else if c = CHR ''$'' \<and> d = CHR 0x27 then following @ getSubstitution t matched preceding following
      else c # getSubstitution (d # t) matched preceding following)"

text \<open>
  \<^verbatim>\<open>s.replace(re, template)\<close> with the flag \<^verbatim>\<open>g\<close>: the text is scanned from the left; a
  match is replaced and the scan goes on behind it (one character further when the
  match is empty).
\<close>

function replace_global :: "(string \<Rightarrow> string list) \<Rightarrow> string \<Rightarrow> string \<Rightarrow> string \<Rightarrow> string" where
  "replace_global m template preceding s =
     (case firstMatch (m s) of
        Some rest \<Rightarrow>
          (let matched = take (length s - length rest) s;
               out = getSubstitution template matched preceding rest
           in if length rest < length s
              then out @ replace_global m template (preceding @ matched) rest
              else (case s of [] \<Rightarrow> out
                    | c # t \<Rightarrow> out @ c # replace_global m template (preceding @ [c]) t))
      | None \<Rightarrow>
          (case s of [] \<Rightarrow> []
           | c # t \<Rightarrow> c # replace_global m template (preceding @ [c]) t))"
  by pat_completeness auto
termination
  by (relation "measure (\<lambda>(m, template, preceding, s). length s)") auto

definition updateVersionString :: "string \<Rightarrow> string \<Rightarrow> string" where
  "updateVersionString html newVersion =
     replace_global VERSION_TOKEN_RE (''Arena Survivor v'' @ newVersion) [] html"

section \<open>Validation\<close>

text \<open>
  \<^verbatim>\<open>validate\<close> collects messages. Each kind of message is a constructor here, and
  \<open>errorMessage\<close> gives the text that the script pushes.
\<close>

datatype validation_error =
    MissingScriptTag
  | MissingHtmlTag
  | MissingSectionBanner string
  | FileTooLarge nat
  | BraceImbalance int

fun show_nat :: "nat \<Rightarrow> string" where
  "show_nat n =
     (if n < 10 then [''0123456789'' ! n]
      else show_nat (n div 10) @ [''0123456789'' ! (n mod 10)])"

definition show_int :: "int \<Rightarrow> string" where
  "show_int i = (if i < 0 then CHR ''-'' # show_nat (nat (- i)) else show_nat (nat i))"

fun errorMessage :: "validation_error \<Rightarrow> string" where
  "errorMessage MissingScriptTag = ''Missing </script> tag''"
| "errorMessage MissingHtmlTag = ''Missing </html> tag''"
| "errorMessage (MissingSectionBanner banner) =
     ''Missing section banner: '' @ [CHR 0x22] @ banner @ [CHR 0x22]"
| "errorMessage (FileTooLarge lineCount) =
     ''File too large: '' @ show_nat lineCount @ '' lines (max 4000)''"
| "errorMessage (BraceImbalance braces) =
     ''Brace imbalance in <script>: '' @ (if braces > 0 then ''+'' else []) @ show_int braces"

text \<open>\<^verbatim>\<open>if (cond) errors.push(e)\<close>\<close>

definition push_if :: "bool \<Rightarrow> 'a \<Rightarrow> 'a list \<Rightarrow> 'a list" where
  "push_if cond e errors = (if cond then errors @ [e] else errors)"

text \<open>\<^verbatim>\<open>/<script>([\s\S]*?)<\/script>/\<close> at one start position: the captured texts.\<close>

definition SCRIPT_RE :: "string \<Rightarrow> string list" where
  "SCRIPT_RE s = do {
     s1 \<leftarrow> lit ''<script>'' s;
     (js, s2) \<leftarrow> lazyGroup (\<lambda>c. True) 0 s1;
     s3 \<leftarrow> lit ''</script>'' s2;
     [js]
   }"

definition count_braces :: "string \<Rightarrow> int" where
  "count_braces js =
     foldl (\<lambda>braces ch.
              let b1 = (if ch = CHR ''{'' then braces + 1 else braces)
              in (if ch = CHR ''}'' then b1 - 1 else b1)) 0 js"

definition validate :: "string \<Rightarrow> validation_error list" where
  "validate html =
     (let errors = [];
          errors = push_if (\<not> includes_str html ''</script>'') MissingScriptTag errors;
          errors = push_if (\<not> includes_str html ''</html>'') MissingHtmlTag errors;
          errors = foldl (\<lambda>errs banner.
                     push_if (\<not> includes_str html banner) (MissingSectionBanner banner) errs)
                     errors (map snd SECTION_MAP);
          lineCount = length (split_nl html);
          errors = push_if (lineCount > 4000) (FileTooLarge lineCount) errors
      in case search SCRIPT_RE html of
           None \<Rightarrow> errors
         | Some js \<Rightarrow>
             (let braces = count_braces js
              in push_if (braces \<noteq> 0) (BraceImbalance braces) errors))"

section \<open>Orchestrator\<close>

text \<open>
  The files that a run touches: the four inputs of \<^verbatim>\<open>FILES\<close>, the backup
  \<^verbatim>\<open>index.html.bak\<close>, and the archive \<^verbatim>\<open>versions/v<version>.html\<close> for each version.
\<close>

datatype path = DNA | REFERENCE | SUBMISSIONS | INDEX | INDEX_BAK | ARCHIVE string

type_synonym disk = "path \<rightharpoonup> string"

text \<open>
  What a run does to its surroundings: \<^verbatim>\<open>fs.copyFileSync(src, dst)\<close>,
  \<^verbatim>\<open>fs.writeFileSync(file, text)\<close>, \<^verbatim>\<open>fs.unlinkSync(file)\<close>, and
  \<^verbatim>\<open>execSync(command)\<close>, which hands the command line to a shell.
\<close>

datatype effect =
    CopyFile path path
  | WriteFile path string
  | Unlink path
  | ExecSync string

record world =
  disk :: disk
  log :: "effect list"

text \<open>
  One operation. It throws (\<open>None\<close>) when the surroundings make it fail, which the
  predicate \<open>fails\<close> decides, or when its source file is missing; a failed operation is
  taken to leave the disk as it was. A successful one is appended to the log. What a
  command line does to the files is not decided here but where the command is built
  (\<open>gitCommit\<close> below).
\<close>

definition perform :: "(effect \<Rightarrow> bool) \<Rightarrow> effect \<Rightarrow> world \<Rightarrow> world option" where
  "perform fails e w =
     (if fails e then None
      else case e of
        CopyFile src dst \<Rightarrow>
          (case disk w src of
             None \<Rightarrow> None
           | Some text \<Rightarrow> Some (w\<lparr>disk := (disk w)(dst \<mapsto> text), log := log w @ [e]\<rparr>))
      | WriteFile f text \<Rightarrow> Some (w\<lparr>disk := (disk w)(f \<mapsto> text), log := log w @ [e]\<rparr>)
      | Unlink f \<Rightarrow>
          (case disk w f of
             None \<Rightarrow> None
           | Some _ \<Rightarrow> Some (w\<lparr>disk := (disk w)(f := None), log := log w @ [e]\<rparr>))
      | ExecSync command \<Rightarrow> Some (w\<lparr>log := log w @ [e]\<rparr>))"

record mutation =
  versionNumber :: string
  versionType :: string
  summary :: string
  changelog :: string
  sectionChanges :: "change list"
  referenceDoc :: string

text \<open>What the call of the service gives: an exception, a reply without a
  \<^verbatim>\<open>tool_use\<close> block, or the input of the tool call.\<close>

datatype response = ServiceError | NoToolUse | ToolUse mutation

record run_env =
  DRY_RUN :: bool
  api_key_set :: bool
  response :: response
  io_fails :: "effect \<Rightarrow> bool"
  shell :: "string \<Rightarrow> disk \<Rightarrow> disk"

text \<open>
  How a run ends. \<open>FatalError\<close> is an exception that leaves \<^verbatim>\<open>main\<close> and is caught by
  \<^verbatim>\<open>main().catch\<close>. Only \<open>DryRunDone\<close> and \<open>Success\<close> end with exit code 0.
\<close>

datatype status =
    MissingFile path
  | NoSubmissions
  | MissingApiKey
  | ApiCallFailed
  | NoToolUseBlock
  | ApplyFailed apply_error
  | ValidationAborted
  | DryRunDone
  | WriteFailed
  | FatalError
  | Success

fun exit_code :: "status \<Rightarrow> nat" where
  "exit_code DryRunDone = 0"
| "exit_code Success = 0"
| "exit_code _ = 1"

record outcome =
  status :: status
  printed_errors :: "validation_error list"
  final :: world

definition stop :: "status \<Rightarrow> world \<Rightarrow> outcome" where
  "stop st w = \<lparr>status = st, printed_errors = [], final = w\<rparr>"

text \<open>The \<^verbatim>\<open>catch\<close> block around the two writes: restore the backup, then exit.\<close>

definition restore_backup :: "run_env \<Rightarrow> world \<Rightarrow> outcome" where
  "restore_backup env w =
     (case perform (io_fails env) (CopyFile INDEX_BAK INDEX) w of
        None \<Rightarrow> stop FatalError w
      | Some w' \<Rightarrow> stop WriteFailed w')"

text \<open>
  \<^verbatim>\<open>gitCommit\<close> builds \<^verbatim>\<open>msg = `v${version}: ${summary}`\<close> and runs
  \<^verbatim>\<open>git commit -m "${msg.replace(/"/g, '\\"')}"\<close> through a shell. Only the double quote
  is escaped. Between double quotes a shell still reads the dollar sign, the backquote
  and the backslash as its own, so a message with one of them can make the shell run
  other commands; a message without them reaches git as it is.
\<close>

definition commit_message :: "string \<Rightarrow> string \<Rightarrow> string" where
  "commit_message version subject = ''v'' @ version @ '': '' @ subject"

definition escape_quotes :: "string \<Rightarrow> string" where
  "escape_quotes msg = concat (map (\<lambda>c. if c = CHR 0x22 then [CHR 0x5C, CHR 0x22] else [c]) msg)"

definition commit_command :: "string \<Rightarrow> string" where
  "commit_command msg = ''git commit -m '' @ [CHR 0x22] @ escape_quotes msg @ [CHR 0x22]"

definition shell_safe :: "string \<Rightarrow> bool" where
  "shell_safe msg \<longleftrightarrow> CHR ''$'' \<notin> set msg \<and> CHR 0x60 \<notin> set msg \<and> CHR 0x5C \<notin> set msg"

text \<open>
  The function \<^verbatim>\<open>gitCommit\<close>: two commands in one \<^verbatim>\<open>try\<close>; a command that fails is
  only warned about, and the files stay written. \<^verbatim>\<open>git add\<close> and a \<^verbatim>\<open>git commit\<close> whose
  message the shell reads literally are taken to leave the files of the run alone.
  For any other message the shell expands the command line before git runs, and what
  that does to the files is chosen by the surroundings (\<open>shell env\<close>).
\<close>

definition gitCommit :: "run_env \<Rightarrow> string \<Rightarrow> string \<Rightarrow> world \<Rightarrow> world" where
  "gitCommit env version subject w =
     (case perform (io_fails env) (ExecSync ''git add index.html GAME-REFERENCE.md'') w of
        None \<Rightarrow> w
      | Some w1 \<Rightarrow>
          (let msg = commit_message version subject;
               w2 = w1\<lparr>disk := (if shell_safe msg then disk w1
                                 else shell env (commit_command msg) (disk w1))\<rparr>
           in case perform (io_fails env) (ExecSync (commit_command msg)) w2 of
                None \<Rightarrow> w2
              | Some w3 \<Rightarrow> w3))"

text \<open>Steps 9 and 10 of \<^verbatim>\<open>main\<close>: backup, the two writes, removal of the backup, commit.\<close>

definition write_files :: "run_env \<Rightarrow> mutation \<Rightarrow> string \<Rightarrow> world \<Rightarrow> outcome" where
  "write_files env m newHtml w1 =
     (case perform (io_fails env) (CopyFile INDEX INDEX_BAK) w1 of
        None \<Rightarrow> stop FatalError w1
      | Some w2 \<Rightarrow>
     (case perform (io_fails env) (WriteFile INDEX newHtml) w2 of
        None \<Rightarrow> restore_backup env w2
      | Some w3 \<Rightarrow>
     (case perform (io_fails env) (WriteFile REFERENCE (referenceDoc m)) w3 of
        None \<Rightarrow> restore_backup env w3
      | Some w4 \<Rightarrow>
     (case perform (io_fails env) (Unlink INDEX_BAK) w4 of
        None \<Rightarrow> stop FatalError w4
      | Some w5 \<Rightarrow> stop Success (gitCommit env (versionNumber m) (summary m) w5)))))"

text \<open>Step 8 of \<^verbatim>\<open>main\<close>, archive if MAJOR, followed by steps 9 and 10.\<close>

definition persist :: "run_env \<Rightarrow> string \<Rightarrow> mutation \<Rightarrow> string \<Rightarrow> world \<Rightarrow> outcome" where
  "persist env currentVersion m newHtml w0 =
     (case (if versionType m = ''MAJOR''
            then perform (io_fails env) (CopyFile INDEX (ARCHIVE currentVersion)) w0
            else Some w0) of
        None \<Rightarrow> stop FatalError w0
      | Some w1 \<Rightarrow> write_files env m newHtml w1)"

text \<open>
  \<^verbatim>\<open>main\<close>, from the disk as the run finds it. Steps 1 to 7 read and compute only;
  the first write is in \<open>persist\<close>.
\<close>

definition main :: "run_env \<Rightarrow> disk \<Rightarrow> outcome" where
  "main env d0 =
     (let w0 = \<lparr>disk = d0, log = []\<rparr> in
      (case d0 DNA of
         None \<Rightarrow> stop (MissingFile DNA) w0
       | Some dnaContent \<Rightarrow>
      (case d0 REFERENCE of
         None \<Rightarrow> stop (MissingFile REFERENCE) w0
       | Some referenceContent \<Rightarrow>
      (case d0 SUBMISSIONS of
         None \<Rightarrow> stop (MissingFile SUBMISSIONS) w0
       | Some submissionsContent \<Rightarrow>
      (case d0 INDEX of
         None \<Rightarrow> stop (MissingFile INDEX) w0
       | Some indexHtml \<Rightarrow>
      (let submissionLines =
             filter (\<lambda>l. trim l \<noteq> [] \<and> \<not> startsWith l ''#'' \<and> \<not> startsWith l ''<!--'')
               (split_nl submissionsContent);
           currentVersion = getCurrentVersion indexHtml
       in if length submissionLines = 0 then stop NoSubmissions w0
          else if \<not> api_key_set env then stop MissingApiKey w0
          else
            (case response env of
               ServiceError \<Rightarrow> stop ApiCallFailed w0
             | NoToolUse \<Rightarrow> stop NoToolUseBlock w0
             | ToolUse m \<Rightarrow>
                 (case applySectionChanges indexHtml (sectionChanges m) of
                    Inl err \<Rightarrow> stop (ApplyFailed err) w0
                  | Inr appliedHtml \<Rightarrow>
                      (let newHtml = updateVersionString appliedHtml (versionNumber m);
                           errors = validate newHtml
                       in if errors \<noteq> [] \<and> \<not> DRY_RUN env
                          then \<lparr>status = ValidationAborted, printed_errors = errors, final = w0\<rparr>
                          else if DRY_RUN env
                          then \<lparr>status = DryRunDone, printed_errors = errors, final = w0\<rparr>
                          else persist env currentVersion m newHtml w0)))))))))"

section \<open>Notions used in the proofs\<close>

text \<open>The lines that the state of the parser loop accounts for, and what holds of
  the state as long as the loop has not met the closing tag.\<close>

definition flat_state :: "parse_state \<Rightarrow> string list" where
  "flat_state st = allLines (ps_pre st) (push_current st) (ps_post st)"

definition parse_inv :: "parse_state \<Rightarrow> bool" where
  "parse_inv st \<longleftrightarrow> ps_post st = [] \<and>
     (if inPreamble st then ps_sections st = [] \<and> currentSection st = None
      else currentSection st \<noteq> None)"

text \<open>An operation that writes an archive file.\<close>

fun archive_write :: "effect \<Rightarrow> bool" where
  "archive_write (CopyFile _ (ARCHIVE _)) \<longleftrightarrow> True"
| "archive_write (WriteFile (ARCHIVE _) _) \<longleftrightarrow> True"
| "archive_write _ \<longleftrightarrow> False"

text \<open>Inputs of a run, for the statements that run the orchestrator on an example:
  a disk with the four input files, a proposal without section changes, surroundings
  in which the key is set and no operation fails, and a document that passes
  validation.\<close>

definition example_disk :: "string \<Rightarrow> disk" where
  "example_disk indexHtml =
     [DNA \<mapsto> ''rules'', REFERENCE \<mapsto> ''reference'', SUBMISSIONS \<mapsto> ''add a boss'',
      INDEX \<mapsto> indexHtml]"

definition example_mutation :: "string \<Rightarrow> string \<Rightarrow> mutation" where
  "example_mutation number type =
     \<lparr>versionNumber = number, versionType = type, summary = ''bosses'',
      changelog = ''bosses arrive'', sectionChanges = [], referenceDoc = ''new reference''\<rparr>"

definition example_env :: "bool \<Rightarrow> mutation \<Rightarrow> run_env" where
  "example_env dry m =
     \<lparr>DRY_RUN = dry, api_key_set = True, response = ToolUse m, io_fails = (\<lambda>e. False),
      shell = (\<lambda>command d. d)\<rparr>"

text \<open>Surroundings without the directory \<^verbatim>\<open>versions\<close>: every copy to an archive file
  throws, and nothing else does.\<close>

fun no_versions_directory :: "effect \<Rightarrow> bool" where
  "no_versions_directory (CopyFile _ (ARCHIVE _)) \<longleftrightarrow> True"
| "no_versions_directory _ \<longleftrightarrow> False"

definition example_env_without_versions :: "mutation \<Rightarrow> run_env" where
  "example_env_without_versions m =
     \<lparr>DRY_RUN = False, api_key_set = True, response = ToolUse m,
      io_fails = no_versions_directory, shell = (\<lambda>command d. d)\<rparr>"

definition valid_document :: string where
  "valid_document = ''Arena Survivor v0.07 CONFIG SKETCH HELPERS CANVAS STATE INPUT UPGRADES PLAYER UPDATE ENEMIES PROJECTILES KILL / XP PARTICLES DRAW HUD GAME OVER AUDIO DEXSCREENER + GROWTH SYSTEM GAME LOOP START / RESTART INIT </html><script>{}</script>''"

section \<open>Splitting and joining lines\<close>

lemma split_nl_not_Nil: "split_nl s \<noteq> []"
  by (induction s) (auto split: list.splits)

lemma join_nl_Cons: "ls \<noteq> [] \<Longrightarrow> join_nl (l # ls) = l @ CHR 0x0A # join_nl ls"
  by (cases ls) auto

lemma join_nl_split_nl: "join_nl (split_nl s) = s"
proof (induction s)
  case Nil
  show ?case by simp
next
  case (Cons c cs)
  show ?case
  proof (cases "c = CHR 0x0A")
    case True
    with Cons show ?thesis by (simp add: join_nl_Cons split_nl_not_Nil)
  next
    case False
    obtain l ls where sp: "split_nl cs = l # ls"
      using split_nl_not_Nil [of cs] by (cases "split_nl cs") auto
    with Cons False show ?thesis by (cases ls) auto
  qed
qed

section \<open>The parser loses no line\<close>

lemma parse_loop_flat:
  "parse_inv st \<Longrightarrow> flat_state (parse_loop ls st) = flat_state st @ ls"
proof (induction ls arbitrary: st)
  case Nil
  then show ?case by simp
next
  case (Cons l ls)
  show ?case
  proof (cases "SECTION_BANNER_RE l")
    case (Some name)
    let ?st' = "st\<lparr>inPreamble := False, ps_sections := push_current st,
            currentSection := Some \<lparr>bannerLine = l, bannerName = name, bodyLines = []\<rparr>\<rparr>"
    have inv: "parse_inv ?st'" using Cons.prems by (simp add: parse_inv_def)
    have "flat_state ?st' = flat_state st @ [l]"
      using Cons.prems by (simp add: flat_state_def allLines_def push_current_def parse_inv_def)
    with Cons.IH [OF inv] Some show ?thesis by simp
  next
    case None
    note nomatch = None
    show ?thesis
    proof (cases "currentSection st")
      case None
      with Cons.prems have pre: "inPreamble st" by (auto simp: parse_inv_def split: if_splits)
      let ?st' = "st\<lparr>ps_pre := ps_pre st @ [l]\<rparr>"
      have inv: "parse_inv ?st'" using Cons.prems by (simp add: parse_inv_def)
      have "flat_state ?st' = flat_state st @ [l]"
        using Cons.prems pre None by (simp add: flat_state_def allLines_def push_current_def parse_inv_def)
      with Cons.IH [OF inv] nomatch None pre show ?thesis by simp
    next
      case (Some cur)
      show ?thesis
      proof (cases "trim l = ''</script>''")
        case True
        with nomatch Some Cons.prems show ?thesis
          by (simp add: flat_state_def allLines_def push_current_def parse_inv_def)
      next
        case False
        let ?st' = "st\<lparr>currentSection := Some (cur\<lparr>bodyLines := bodyLines cur @ [l]\<rparr>)\<rparr>"
        have inv: "parse_inv ?st'"
          using Cons.prems Some by (auto simp: parse_inv_def split: if_splits)
        have "flat_state ?st' = flat_state st @ [l]"
          using Cons.prems Some by (simp add: flat_state_def allLines_def push_current_def parse_inv_def)
        with Cons.IH [OF inv] nomatch Some False show ?thesis by simp
      qed
    qed
  qed
qed

lemma allLines_parseIntoSections:
  "allLines (preScriptLines (parseIntoSections html)) (sections (parseIntoSections html))
     (postScriptLines (parseIntoSections html)) = split_nl html"
proof -
  have "parse_inv parse_init" by (simp add: parse_inv_def parse_init_def)
  from parse_loop_flat [OF this, of "split_nl html"]
  show ?thesis
    by (simp add: parseIntoSections_def Let_def flat_state_def parse_init_def allLines_def
        push_current_def)
qed

lemma applySectionChanges_Nil: "applySectionChanges html [] = Inr html"
  by (simp add: applySectionChanges_def Let_def allLines_parseIntoSections join_nl_split_nl)

text \<open>
  Claim C2 (round-trip identity). Parsing a document into preamble, sections and
  postamble and joining the preamble, each section's banner line and body lines in
  order, and the postamble gives the document back, and so does
  \<open>applySectionChanges\<close> with no change. This holds of every document, whatever its
  markers look like.
\<close>

theorem roundtrip_identity:
  "join_nl (allLines (preScriptLines (parseIntoSections html)) (sections (parseIntoSections html))
     (postScriptLines (parseIntoSections html))) = html
   \<and> applySectionChanges html [] = Inr html"
  by (simp add: applySectionChanges_def Let_def allLines_parseIntoSections join_nl_split_nl)

section \<open>Finding a section and applying changes\<close>

lemma find_index_Some:
  "find_index P xs = Some i \<Longrightarrow> i < length xs \<and> P (xs ! i) \<and> (\<forall>j<i. \<not> P (xs ! j))"
proof (induction xs arbitrary: i)
  case Nil
  then show ?case by simp
next
  case (Cons x xs)
  show ?case
  proof (cases "P x")
    case True
    with Cons.prems show ?thesis by simp
  next
    case False
    with Cons.prems obtain k where k: "find_index P xs = Some k" "i = Suc k" by auto
    from Cons.IH [OF k(1)] False k(2) show ?thesis
      by (auto simp: nth_Cons split: nat.splits)
  qed
qed

lemma find_index_None: "find_index P xs = None \<longleftrightarrow> (\<forall>x\<in>set xs. \<not> P x)"
  by (induction xs) auto

lemma find_index_first:
  "i < length xs \<Longrightarrow> P (xs ! i) \<Longrightarrow> (\<forall>j<i. \<not> P (xs ! j)) \<Longrightarrow> find_index P xs = Some i"
proof (induction xs arbitrary: i)
  case Nil
  then show ?case by simp
next
  case (Cons x xs)
  show ?case
  proof (cases i)
    case 0
    with Cons.prems show ?thesis by simp
  next
    case (Suc k)
    with Cons.prems have "\<not> P x" by auto
    moreover have "find_index P xs = Some k"
      using Cons.prems Suc by (intro Cons.IH) auto
    ultimately show ?thesis using Suc by simp
  qed
qed

lemma find_index_append:
  "\<forall>x\<in>set xs. \<not> P x \<Longrightarrow> P y \<Longrightarrow> find_index P (xs @ y # ys) = Some (length xs)"
  by (induction xs) auto

lemma getProperty_JSString: "getProperty k = JSString n \<Longrightarrow> n \<noteq> []"
  by (auto simp: getProperty_def SECTION_MAP_def split: option.splits if_splits)

lemma getProperty_cases:
  "getProperty k = JSUndefined \<or> (\<exists>n. getProperty k = JSString n \<and> n \<noteq> []) \<or> getProperty k = JSInherited k"
  by (auto simp: getProperty_def SECTION_MAP_def split: option.splits if_splits)

lemma apply_changes_step:
  "apply_changes ss (c # cs) =
     (case getProperty (sectionName c) of
        JSUndefined \<Rightarrow> Inl (UnknownSectionName (sectionName c))
      | JSInherited k \<Rightarrow> Inl (SectionNotFound (JSInherited k))
      | JSString n \<Rightarrow>
          (case find_index (\<lambda>s. bannerName s = n) ss of
             None \<Rightarrow> Inl (SectionNotFound (JSString n))
           | Some i \<Rightarrow> apply_changes (ss[i := (ss ! i)\<lparr>bodyLines := split_nl (content c)\<rparr>]) cs))"
proof (cases "getProperty (sectionName c)")
  case JSUndefined
  then show ?thesis by (simp add: Let_def)
next
  case (JSString n)
  with getProperty_JSString [OF JSString] show ?thesis by (simp add: Let_def)
next
  case (JSInherited k)
  have "find_index (\<lambda>s. False) ss = None" by (simp add: find_index_None)
  with JSInherited show ?thesis by (simp add: Let_def)
qed

declare apply_changes.simps(2) [simp del]

lemma apply_change_found:
  assumes "getProperty (sectionName c) = JSString n"
    and "find_index (\<lambda>s. bannerName s = n) ss = Some i"
  shows "apply_changes ss (c # cs) =
           apply_changes (ss[i := (ss ! i)\<lparr>bodyLines := split_nl (content c)\<rparr>]) cs"
  using assms by (simp add: apply_changes_step)





lemma find_index_bannerName_cong:
  "map bannerName ss' = map bannerName ss \<Longrightarrow>
   find_index (\<lambda>s. Q (bannerName s)) ss' = find_index (\<lambda>s. Q (bannerName s)) ss"
proof (induction ss arbitrary: ss')
  case Nil
  then show ?case by simp
next
  case (Cons a ss)
  then obtain a' ss'' where "ss' = a' # ss''" "bannerName a' = bannerName a"
    "map bannerName ss'' = map bannerName ss" by (cases ss') auto
  with Cons.IH [of ss''] show ?case by simp
qed

lemma map_bannerName_update:
  "map bannerName (ss[i := (ss ! i)\<lparr>bodyLines := b\<rparr>]) = map bannerName ss"
  by (cases "i < length ss") (simp_all add: map_update list_update_same_conv list_update_beyond)

lemma find_index_JSString:
  "find_index (\<lambda>s. JSString (bannerName s) = JSString n) ss = find_index (\<lambda>s. bannerName s = n) ss"
  by simp

lemma apply_changes_overwritten:
  assumes "getProperty (sectionName c) = JSString n"
    and "find_index (\<lambda>s. bannerName s = n) ss = Some i"
    and "sectionName c \<in> sectionName ` set cs"
  shows "apply_changes (ss[i := (ss ! i)\<lparr>bodyLines := b\<rparr>]) cs = apply_changes ss cs"
  using assms(2,3)
proof (induction cs arbitrary: ss b)
  case Nil
  then show ?case by simp
next
  case (Cons d ds)
  let ?ss' = "ss[i := (ss ! i)\<lparr>bodyLines := b\<rparr>]"
  have ilen: "i < length ss" using find_index_Some [OF Cons.prems(1)] by simp
  show ?case
  proof (cases "getProperty (sectionName d)")
    case JSUndefined
    then show ?thesis by (simp add: apply_changes_step)
  next
    case (JSInherited k)
    then show ?thesis by (simp add: apply_changes_step)
  next
    case (JSString m)
    have same: "find_index (\<lambda>s. bannerName s = m) ?ss' = find_index (\<lambda>s. bannerName s = m) ss"
      by (rule find_index_bannerName_cong) (rule map_bannerName_update)
    show ?thesis
    proof (cases "find_index (\<lambda>s. bannerName s = m) ss")
      case None
      with JSString same show ?thesis by (simp add: apply_changes_step)
    next
      case (Some k)
      let ?b' = "split_nl (content d)"
      show ?thesis
      proof (cases "k = i")
        case True
        have "?ss'[i := (?ss' ! i)\<lparr>bodyLines := ?b'\<rparr>] = ss[i := (ss ! i)\<lparr>bodyLines := ?b'\<rparr>]"
          using ilen by simp
        with JSString same Some True show ?thesis by (simp add: apply_changes_step)
      next
        case False
        have neq: "sectionName d \<noteq> sectionName c"
        proof
          assume "sectionName d = sectionName c"
          with JSString assms(1) have "m = n" by simp
          with Some Cons.prems(1) False show False by simp
        qed
        with Cons.prems(2) have mem: "sectionName c \<in> sectionName ` set ds" by auto
        let ?t = "ss[k := (ss ! k)\<lparr>bodyLines := ?b'\<rparr>]"
        have idx: "find_index (\<lambda>s. bannerName s = n) ?t = Some i"
          using Cons.prems(1) find_index_bannerName_cong [OF map_bannerName_update, of "\<lambda>x. x = n" ss k ?b']
          by simp
        have swap: "?ss'[k := (?ss' ! k)\<lparr>bodyLines := ?b'\<rparr>] = ?t[i := (?t ! i)\<lparr>bodyLines := b\<rparr>]"
          using False by (simp add: list_update_swap)
        have "apply_changes ?ss' (d # ds) = apply_changes (?ss'[k := (?ss' ! k)\<lparr>bodyLines := ?b'\<rparr>]) ds"
          using JSString same Some by (simp add: apply_changes_step)
        also have "\<dots> = apply_changes ?t ds"
          unfolding swap by (rule Cons.IH [OF idx mem])
        also have "\<dots> = apply_changes ss (d # ds)"
          using JSString Some by (simp add: apply_changes_step)
        finally show ?thesis .
      qed
    qed
  qed
qed

lemma apply_changes_Inr_names:
  "apply_changes ss cs = Inr ss' \<Longrightarrow> map bannerName ss' = map bannerName ss"
proof (induction cs arbitrary: ss)
  case Nil
  then show ?case by simp
next
  case (Cons c cs)
  then show ?case
    by (auto simp: apply_changes_step map_bannerName_update split: jsvalue.splits option.splits)
qed

lemma apply_changes_Inr_found:
  "apply_changes ss cs = Inr ss' \<Longrightarrow> d \<in> set cs \<Longrightarrow>
   \<exists>n i. getProperty (sectionName d) = JSString n \<and> find_index (\<lambda>s. bannerName s = n) ss = Some i"
proof (induction cs arbitrary: ss)
  case Nil
  then show ?case by simp
next
  case (Cons c cs)
  from Cons.prems(1) obtain n i where c: "getProperty (sectionName c) = JSString n"
    "find_index (\<lambda>s. bannerName s = n) ss = Some i"
    and rest: "apply_changes (ss[i := (ss ! i)\<lparr>bodyLines := split_nl (content c)\<rparr>]) cs = Inr ss'"
    by (auto simp: apply_changes_step split: jsvalue.splits option.splits)
  show ?case
  proof (cases "d = c")
    case True
    with c show ?thesis by blast
  next
    case False
    with Cons.prems(2) have "d \<in> set cs" by simp
    from Cons.IH [OF rest this] obtain m k where m: "getProperty (sectionName d) = JSString m"
      "find_index (\<lambda>s. bannerName s = m) (ss[i := (ss ! i)\<lparr>bodyLines := split_nl (content c)\<rparr>]) = Some k"
      by blast
    from m(2) have "find_index (\<lambda>s. bannerName s = m) ss = Some k"
      using find_index_bannerName_cong [OF map_bannerName_update, of "\<lambda>x. x = m" ss i "split_nl (content c)"]
      by simp
    with m(1) show ?thesis by blast
  qed
qed

lemma apply_changes_drop_duplicate:
  assumes "sectionName c \<in> sectionName ` set cs"
  shows "apply_changes ss (c # cs) = Inr ss' \<longleftrightarrow> apply_changes ss cs = Inr ss'"
proof
  assume l: "apply_changes ss (c # cs) = Inr ss'"
  from apply_changes_Inr_found [OF l, of c] obtain n i where
    c: "getProperty (sectionName c) = JSString n" "find_index (\<lambda>s. bannerName s = n) ss = Some i"
    by auto
  from l c have "apply_changes (ss[i := (ss ! i)\<lparr>bodyLines := split_nl (content c)\<rparr>]) cs = Inr ss'"
    by (simp add: apply_changes_step)
  then show "apply_changes ss cs = Inr ss'"
    by (simp add: apply_changes_overwritten [OF c assms])
next
  assume r: "apply_changes ss cs = Inr ss'"
  from assms obtain d where d: "d \<in> set cs" "sectionName d = sectionName c" by auto
  from apply_changes_Inr_found [OF r d(1)] d(2) obtain n i where
    c: "getProperty (sectionName c) = JSString n" "find_index (\<lambda>s. bannerName s = n) ss = Some i"
    by auto
  have "apply_changes ss (c # cs) = apply_changes (ss[i := (ss ! i)\<lparr>bodyLines := split_nl (content c)\<rparr>]) cs"
    using c by (simp add: apply_changes_step)
  with r show "apply_changes ss (c # cs) = Inr ss'"
    by (simp add: apply_changes_overwritten [OF c assms])
qed

text \<open>
  Claim C3 (targeted replacement isolation). Let the parsed sections of a document be
  \<open>ss1 @ [B] @ ss2\<close> with pairwise distinct names (for three sections \<open>A\<close>, \<open>B\<close>, \<open>C\<close>:
  \<open>ss1 = [A]\<close> and \<open>ss2 = [C]\<close>), and let one change name an identifier that the table
  maps to the name of \<open>B\<close>, with content \<open>X\<close>. Then \<open>applySectionChanges\<close> succeeds, and
  the lines of its result are the preamble, the banner line and body of every section
  of \<open>ss1\<close> as they were, the banner line of \<open>B\<close> followed by the lines of \<open>X\<close>, the banner
  line and body of every section of \<open>ss2\<close> as they were, and the postamble, in this
  order. The lines of \<open>X\<close> joined are \<open>X\<close> itself.
\<close>

theorem targeted_replacement_isolation:
  assumes parsed: "sections (parseIntoSections html) = ss1 @ [B] @ ss2"
    and dist: "distinct (map bannerName (ss1 @ [B] @ ss2))"
    and ident: "getProperty ident = JSString (bannerName B)"
  shows "applySectionChanges html [\<lparr>sectionName = ident, content = X\<rparr>] =
           Inr (join_nl (preScriptLines (parseIntoSections html)
                  @ concat (map (\<lambda>s. bannerLine s # bodyLines s) ss1)
                  @ (bannerLine B # split_nl X)
                  @ concat (map (\<lambda>s. bannerLine s # bodyLines s) ss2)
                  @ postScriptLines (parseIntoSections html)))
         \<and> join_nl (split_nl X) = X"
proof -
  let ?c = "\<lparr>sectionName = ident, content = X\<rparr>"
  from dist have "bannerName B \<notin> bannerName ` set ss1" by simp
  then have "\<forall>s\<in>set ss1. \<not> bannerName s = bannerName B" by (metis imageI)
  then have idx: "find_index (\<lambda>s. bannerName s = bannerName B) (ss1 @ B # ss2) = Some (length ss1)"
    by (rule find_index_append) simp
  have "apply_changes (ss1 @ B # ss2) [?c] =
          Inr ((ss1 @ B # ss2)[length ss1 := ((ss1 @ B # ss2) ! length ss1)\<lparr>bodyLines := split_nl X\<rparr>])"
    using apply_change_found [of ?c "bannerName B" "ss1 @ B # ss2" "length ss1" "[]"] ident idx
    by simp
  then have ac: "apply_changes (sections (parseIntoSections html)) [?c] =
      Inr (ss1 @ [B\<lparr>bodyLines := split_nl X\<rparr>] @ ss2)"
    by (simp add: parsed)
  show ?thesis
    unfolding applySectionChanges_def Let_def ac
    by (simp add: allLines_def join_nl_split_nl)
qed

theorem targeted_replacement_isolation_witness:
  "applySectionChanges ''// = CONFIG =\<newline>a\<newline>// = STATE =\<newline>b\<newline>// = INIT =\<newline>c''
     [\<lparr>sectionName = ''STATE'', content = ''x\<newline>y''\<rparr>]
   = Inr ''// = CONFIG =\<newline>a\<newline>// = STATE =\<newline>x\<newline>y\<newline>// = INIT =\<newline>c''"
proof -
  let ?html = "''// = CONFIG =\<newline>a\<newline>// = STATE =\<newline>b\<newline>// = INIT =\<newline>c''"
  let ?A = "\<lparr>bannerLine = ''// = CONFIG ='', bannerName = ''CONFIG'', bodyLines = [''a'']\<rparr>"
  let ?B = "\<lparr>bannerLine = ''// = STATE ='', bannerName = ''STATE'', bodyLines = [''b'']\<rparr>"
  let ?C = "\<lparr>bannerLine = ''// = INIT ='', bannerName = ''INIT'', bodyLines = [''c'']\<rparr>"
  have p: "parseIntoSections ?html =
      \<lparr>preScriptLines = [], sections = [?A, ?B, ?C], postScriptLines = []\<rparr>"
    by code_simp
  have h1: "sections (parseIntoSections ?html) = [?A] @ [?B] @ [?C]" by (simp add: p)
  have h2: "distinct (map bannerName ([?A] @ [?B] @ [?C]))" by simp
  have h3: "getProperty ''STATE'' = JSString (bannerName ?B)" by code_simp
  from targeted_replacement_isolation [OF h1 h2 h3, of "''x\<newline>y''"]
  show ?thesis by (simp add: p)
qed

text \<open>
  Claim C10 (equal marker texts). Let the sections at positions \<open>i < j\<close> of the parsed
  document carry the marker text \<open>n\<close>, position \<open>i\<close> being the first that does, and let a
  change name an identifier that the table maps to \<open>n\<close>. Then the change succeeds, it
  replaces the body of section \<open>i\<close> only, and every other section, the one at \<open>j\<close> among
  them, is returned as it was.
\<close>

theorem first_of_equal_markers_only:
  assumes ident: "getProperty (sectionName c) = JSString n"
    and ij: "i < j" "j < length (sections (parseIntoSections html))"
    and same: "bannerName (sections (parseIntoSections html) ! i) = n"
      "bannerName (sections (parseIntoSections html) ! j) = n"
    and first: "\<forall>k<i. bannerName (sections (parseIntoSections html) ! k) \<noteq> n"
  shows "apply_changes (sections (parseIntoSections html)) [c] =
           Inr ((sections (parseIntoSections html))
                  [i := (sections (parseIntoSections html) ! i)\<lparr>bodyLines := split_nl (content c)\<rparr>])
       \<and> applySectionChanges html [c] =
           Inr (join_nl (allLines (preScriptLines (parseIntoSections html))
                  ((sections (parseIntoSections html))
                     [i := (sections (parseIntoSections html) ! i)\<lparr>bodyLines := split_nl (content c)\<rparr>])
                  (postScriptLines (parseIntoSections html))))
       \<and> (\<forall>k < length (sections (parseIntoSections html)). k \<noteq> i \<longrightarrow>
            (sections (parseIntoSections html))
               [i := (sections (parseIntoSections html) ! i)\<lparr>bodyLines := split_nl (content c)\<rparr>] ! k
            = sections (parseIntoSections html) ! k)"
proof -
  let ?ss = "sections (parseIntoSections html)"
  have "find_index (\<lambda>s. bannerName s = n) ?ss = Some i"
    using ij same(1) first by (intro find_index_first) auto
  with ident have ac: "apply_changes ?ss [c] = Inr (?ss[i := (?ss ! i)\<lparr>bodyLines := split_nl (content c)\<rparr>])"
    by (simp add: apply_changes_step)
  show ?thesis
    unfolding applySectionChanges_def Let_def ac by simp
qed

theorem first_of_equal_markers_only_witness:
  "applySectionChanges ''// = HUD =\<newline>a\<newline>// = HUD =\<newline>b'' [\<lparr>sectionName = ''HUD'', content = ''x''\<rparr>]
     = Inr ''// = HUD =\<newline>x\<newline>// = HUD =\<newline>b''"
proof -
  let ?html = "''// = HUD =\<newline>a\<newline>// = HUD =\<newline>b''"
  let ?c = "\<lparr>sectionName = ''HUD'', content = ''x''\<rparr>"
  let ?A = "\<lparr>bannerLine = ''// = HUD ='', bannerName = ''HUD'', bodyLines = [''a'']\<rparr>"
  let ?B = "\<lparr>bannerLine = ''// = HUD ='', bannerName = ''HUD'', bodyLines = [''b'']\<rparr>"
  have p: "parseIntoSections ?html =
      \<lparr>preScriptLines = [], sections = [?A, ?B], postScriptLines = []\<rparr>"
    by code_simp
  have h1: "getProperty (sectionName ?c) = JSString ''HUD''" by code_simp
  have h2: "(0::nat) < 1" by simp
  have h3: "1 < length (sections (parseIntoSections ?html))" by (simp add: p)
  have h4: "bannerName (sections (parseIntoSections ?html) ! 0) = ''HUD''" by (simp add: p)
  have h5: "bannerName (sections (parseIntoSections ?html) ! 1) = ''HUD''" by (simp add: p)
  have h6: "\<forall>k<0. bannerName (sections (parseIntoSections ?html) ! k) \<noteq> ''HUD''" by simp
  from first_of_equal_markers_only [OF h1 h2 h3 h4 h5 h6]
  show ?thesis by (simp add: p allLines_def)
qed

lemma apply_changes_append:
  "apply_changes ss (xs @ ys) =
     (case apply_changes ss xs of Inl e \<Rightarrow> Inl e | Inr ss1 \<Rightarrow> apply_changes ss1 ys)"
proof (induction xs arbitrary: ss)
  case Nil
  show ?case by simp
next
  case (Cons x xs)
  show ?case
  proof (cases "getProperty (sectionName x)")
    case JSUndefined
    then show ?thesis by (simp add: apply_changes_step)
  next
    case (JSInherited k)
    then show ?thesis by (simp add: apply_changes_step)
  next
    case (JSString n)
    show ?thesis
    proof (cases "find_index (\<lambda>s. bannerName s = n) ss")
      case None
      with JSString show ?thesis by (simp add: apply_changes_step)
    next
      case (Some i)
      with JSString Cons.IH [of "ss[i := (ss ! i)\<lparr>bodyLines := split_nl (content x)\<rparr>]"]
      show ?thesis by (simp add: apply_changes_step)
    qed
  qed
qed

lemma apply_changes_drop_earlier:
  assumes "sectionName c \<in> sectionName ` set cs2"
  shows "apply_changes ss (cs1 @ c # cs2) = Inr ss' \<longleftrightarrow> apply_changes ss (cs1 @ cs2) = Inr ss'"
proof (cases "apply_changes ss cs1")
  case (Inl e)
  then show ?thesis by (simp add: apply_changes_append)
next
  case (Inr ss1)
  with apply_changes_drop_duplicate [OF assms, of ss1 ss'] show ?thesis
    by (simp add: apply_changes_append)
qed

text \<open>
  Claim C8 (an identifier named twice), as the code has it. The applier has no check
  for repeated identifiers: the changes are applied in the order of the list, and a
  later change overwrites an earlier one for the same identifier; the last statement
  below is a proposal that names \<open>CONFIG\<close> twice and is applied. The amended claim:
  when the identifier of a change, wherever it stands in the list, occurs again
  further on in the list, the application succeeds with a document exactly when it
  succeeds with that document for the list without that change. So of the changes
  for one identifier only the last counts.
\<close>

theorem duplicate_identifier_last_wins:
  assumes "sectionName c \<in> sectionName ` set cs2"
  shows "applySectionChanges html (cs1 @ c # cs2) = Inr r
     \<longleftrightarrow> applySectionChanges html (cs1 @ cs2) = Inr r"
proof -
  let ?ss = "sections (parseIntoSections html)"
  have eq: "apply_changes ?ss (cs1 @ c # cs2) = Inr ss' \<longleftrightarrow> apply_changes ?ss (cs1 @ cs2) = Inr ss'"
    for ss'
    by (rule apply_changes_drop_earlier [OF assms])
  show ?thesis
  proof (cases "apply_changes ?ss (cs1 @ cs2)")
    case (Inl e)
    with eq have "apply_changes ?ss (cs1 @ c # cs2) \<noteq> Inr ss'" for ss' by simp
    then obtain e' where "apply_changes ?ss (cs1 @ c # cs2) = Inl e'"
      by (cases "apply_changes ?ss (cs1 @ c # cs2)") auto
    with Inl show ?thesis by (simp add: applySectionChanges_def)
  next
    case (Inr ss')
    with eq have "apply_changes ?ss (cs1 @ c # cs2) = Inr ss'" by simp
    with Inr show ?thesis by (simp add: applySectionChanges_def)
  qed
qed

theorem duplicate_identifier_last_wins_witness:
  "sectionName \<lparr>sectionName = ''HUD'', content = ''first''\<rparr>
      \<in> sectionName ` set [\<lparr>sectionName = ''HUD'', content = ''second''\<rparr>]
   \<and> applySectionChanges ''// = CONFIG =\<newline>old\<newline>// = HUD =\<newline>old''
        ([\<lparr>sectionName = ''CONFIG'', content = ''x''\<rparr>]
          @ \<lparr>sectionName = ''HUD'', content = ''first''\<rparr>
          # [\<lparr>sectionName = ''HUD'', content = ''second''\<rparr>])
      = Inr ''// = CONFIG =\<newline>x\<newline>// = HUD =\<newline>second''
   \<and> applySectionChanges ''// = CONFIG =\<newline>old\<newline>// = HUD =\<newline>old''
        ([\<lparr>sectionName = ''CONFIG'', content = ''x''\<rparr>]
          @ [\<lparr>sectionName = ''HUD'', content = ''second''\<rparr>])
      = Inr ''// = CONFIG =\<newline>x\<newline>// = HUD =\<newline>second''"
proof -
  let ?html = "''// = CONFIG =\<newline>old\<newline>// = HUD =\<newline>old''"
  let ?r = "''// = CONFIG =\<newline>x\<newline>// = HUD =\<newline>second''"
  let ?x = "\<lparr>sectionName = ''CONFIG'', content = ''x''\<rparr>"
  let ?c = "\<lparr>sectionName = ''HUD'', content = ''first''\<rparr>"
  let ?d = "\<lparr>sectionName = ''HUD'', content = ''second''\<rparr>"
  have h: "sectionName ?c \<in> sectionName ` set [?d]" by simp
  have "applySectionChanges ?html [?x, ?d] = Inr ?r" by code_simp
  then have without: "applySectionChanges ?html ([?x] @ [?d]) = Inr ?r" by simp
  from duplicate_identifier_last_wins [OF h, of ?html "[?x]" ?r] without
  have "applySectionChanges ?html ([?x] @ ?c # [?d]) = Inr ?r" by blast
  with h without show ?thesis by blast
qed

theorem duplicate_identifier_counterexample:
  "applySectionChanges ''// = CONFIG =\<newline>old''
     [\<lparr>sectionName = ''CONFIG'', content = ''first''\<rparr>, \<lparr>sectionName = ''CONFIG'', content = ''second''\<rparr>]
   = Inr ''// = CONFIG =\<newline>second''"
  by code_simp

lemma unknown_identifier_error:
  assumes "map_of SECTION_MAP (sectionName c) = None"
    and "sectionName c \<notin> set OBJECT_PROTOTYPE_KEYS"
  shows "applySectionChanges html (c # cs) = Inl (UnknownSectionName (sectionName c))"
proof -
  from assms have "getProperty (sectionName c) = JSUndefined" by (simp add: getProperty_def)
  then show ?thesis by (simp add: applySectionChanges_def apply_changes_step)
qed

lemma inherited_identifier_error:
  assumes "map_of SECTION_MAP (sectionName c) = None"
    and "sectionName c \<in> set OBJECT_PROTOTYPE_KEYS"
  shows "applySectionChanges html (c # cs) = Inl (SectionNotFound (JSInherited (sectionName c)))"
proof -
  from assms have "getProperty (sectionName c) = JSInherited (sectionName c)"
    by (simp add: getProperty_def)
  then show ?thesis by (simp add: applySectionChanges_def apply_changes_step)
qed

lemma missing_marker_error:
  assumes "map_of SECTION_MAP (sectionName c) = Some n"
    and "n \<notin> bannerName ` set (sections (parseIntoSections html))"
  shows "applySectionChanges html (c # cs) = Inl (SectionNotFound (JSString n))"
proof -
  from assms(1) have g: "getProperty (sectionName c) = JSString n" by (simp add: getProperty_def)
  from assms(2) have "find_index (\<lambda>s. bannerName s = n) (sections (parseIntoSections html)) = None"
    by (auto simp: find_index_None)
  with g show ?thesis by (simp add: applySectionChanges_def apply_changes_step)
qed

text \<open>
  Claim C4 (unknown identifier), at the input where the code departs from it. The
  identifier \<open>constructor\<close> is not a key of the table, but the property read finds the
  member that every object inherits, which is not falsy; the test for an unknown
  name passes it on, no section name is equal to it, and the error is the one for a
  section that is not found. For a key that is neither in the table nor inherited
  the error is the one for an unknown name (\<open>unknown_identifier_error\<close>), for a key
  of the table whose marker text no section carries it is the one for a section that
  is not found (\<open>missing_marker_error\<close>), and a run in which the application fails
  writes nothing (\<open>apply_failure_writes_nothing\<close>).
\<close>

theorem inherited_key_not_unknown:
  "applySectionChanges html [\<lparr>sectionName = ''constructor'', content = body\<rparr>]
     = Inl (SectionNotFound (JSInherited ''constructor''))"
proof -
  have "getProperty ''constructor'' = JSInherited ''constructor''" by code_simp
  then show ?thesis by (simp add: applySectionChanges_def apply_changes_step)
qed

section \<open>Rewriting the version\<close>

declare replace_global.simps [simp del]


lemma greedy_one_empty: "greedy P (Suc 0) s = [] \<longleftrightarrow> takeWhile P s = []"
  by (cases "takeWhile P s") (auto simp: greedy_def)

lemma greedy_one_first:
  "takeWhile P s \<noteq> [] \<Longrightarrow> \<exists>rs. greedy P (Suc 0) s = dropWhile P s # rs"
proof -
  assume ne: "takeWhile P s \<noteq> []"
  let ?n = "length (takeWhile P s)"
  have "?n \<ge> 1" using ne by (cases "takeWhile P s") auto
  then have "[Suc 0 ..< Suc ?n] = [Suc 0 ..< ?n] @ [?n]" by simp
  then have "greedy P (Suc 0) s = drop ?n s # map (\<lambda>k. drop k s) (rev [Suc 0 ..< ?n])"
    by (simp add: greedy_def)
  then show ?thesis by (simp add: dropWhile_eq_drop)
qed

lemma startsWith_iff: "startsWith s p \<longleftrightarrow> (\<exists>r. s = p @ r)"
  unfolding startsWith_def
  by (metis append_eq_conv_conj append_take_drop_id)

lemma lit_append [simp]: "lit p (p @ r) = [r]"
  by (simp add: lit_def startsWith_def)

lemma lit_empty: "lit p s = [] \<longleftrightarrow> \<not> (\<exists>r. s = p @ r)"
  by (simp add: lit_def startsWith_iff)

lemma VERSION_TOKEN_RE_empty:
  "VERSION_TOKEN_RE s = [] \<longleftrightarrow> \<not> (\<exists>c r. s = ''Arena Survivor v'' @ c # r \<and> isVersionChar c)"
proof (cases "\<exists>t. s = ''Arena Survivor v'' @ t")
  case False
  then have "lit ''Arena Survivor v'' s = []"
    using lit_empty [of "''Arena Survivor v''" s] by blast
  moreover from False have "\<not> (\<exists>c r. s = ''Arena Survivor v'' @ c # r \<and> isVersionChar c)" by blast
  ultimately show ?thesis by (simp add: VERSION_TOKEN_RE_def)
next
  case True
  then obtain t where t: "s = ''Arena Survivor v'' @ t" by blast
  have "VERSION_TOKEN_RE s = greedy isVersionChar 1 t"
    unfolding t VERSION_TOKEN_RE_def by (simp only: lit_append) simp
  moreover have "takeWhile isVersionChar t = [] \<longleftrightarrow> \<not> (\<exists>c r. t = c # r \<and> isVersionChar c)"
    by (cases t) auto
  ultimately show ?thesis by (simp add: greedy_one_empty t)
qed

lemma VERSION_TOKEN_RE_first:
  assumes "isVersionChar c"
  shows "firstMatch (VERSION_TOKEN_RE (''Arena Survivor v'' @ c # r)) = Some (dropWhile isVersionChar r)"
proof -
  have "VERSION_TOKEN_RE (''Arena Survivor v'' @ c # r) = greedy isVersionChar 1 (c # r)"
    unfolding VERSION_TOKEN_RE_def by (simp only: lit_append) simp
  moreover from assms have "takeWhile isVersionChar (c # r) \<noteq> []" by simp
  from greedy_one_first [OF this] assms obtain rs where
    "greedy isVersionChar (Suc 0) (c # r) = dropWhile isVersionChar r # rs" by auto
  ultimately show ?thesis by (simp add: firstMatch_def)
qed

lemma replace_global_no_match:
  "(\<And>a b. s = a @ b \<Longrightarrow> m b = []) \<Longrightarrow> replace_global m template preceding s = s"
proof (induction s arbitrary: preceding)
  case Nil
  then have "m [] = []" by simp
  then show ?case by (subst replace_global.simps) (simp add: firstMatch_def)
next
  case (Cons c s)
  have here: "m (c # s) = []" using Cons.prems [of "[]" "c # s"] by simp
  have "replace_global m template (preceding @ [c]) s = s"
  proof (rule Cons.IH)
    fix a b assume "s = a @ b"
    then show "m b = []" using Cons.prems [of "c # a" b] by simp
  qed
  with here show ?case by (subst replace_global.simps) (simp add: firstMatch_def)
qed

lemma search_None_iff: "search m s = None \<longleftrightarrow> (\<forall>a b. s = a @ b \<longrightarrow> m b = [])"
proof (induction s)
  case Nil
  then show ?case by (auto simp: firstMatch_def split: list.splits)
next
  case (Cons c s)
  show ?case
  proof (cases "m (c # s)")
    case Nil
    have "(\<forall>a b. c # s = a @ b \<longrightarrow> m b = []) \<longleftrightarrow> (\<forall>a b. s = a @ b \<longrightarrow> m b = [])"
      (is "?L \<longleftrightarrow> ?R")
    proof
      assume l: ?L
      show ?R
      proof (intro allI impI)
        fix a b assume "s = a @ b"
        then have "c # s = (c # a) @ b" by simp
        with l show "m b = []" by blast
      qed
    next
      assume r: ?R
      show ?L
      proof (intro allI impI)
        fix a b assume ab: "c # s = a @ b"
        show "m b = []"
        proof (cases a)
          case Nil
          with ab \<open>m (c # s) = []\<close> show ?thesis by simp
        next
          case (Cons x a')
          with ab have "s = a' @ b" by simp
          with r show ?thesis by blast
        qed
      qed
    qed
    with Nil Cons.IH show ?thesis by simp
  next
    case (Cons r rs)
    then have "\<not> (\<forall>a b. c # s = a @ b \<longrightarrow> m b = [])"
      by (metis append_Nil list.distinct(1))
    with Cons show ?thesis by simp
  qed
qed

lemma getSubstitution_no_dollar:
  "CHR ''$'' \<notin> set template \<Longrightarrow> getSubstitution template matched preceding following = template"
  by (induction template matched preceding following rule: getSubstitution.induct) auto

lemma replace_global_match_step:
  assumes "firstMatch (m s) = Some rest" "s = matched @ rest" "matched \<noteq> []"
  shows "replace_global m template preceding s =
           getSubstitution template matched preceding rest
           @ replace_global m template (preceding @ matched) rest"
proof -
  have len: "length rest < length s" using assms(2,3) by simp
  have tk: "take (length s - length rest) s = matched" using assms(2) by simp
  show ?thesis by (subst replace_global.simps) (simp add: assms(1) Let_def len tk)
qed

lemma replace_global_at_token:
  assumes "isVersionChar c"
  shows "replace_global VERSION_TOKEN_RE template preceding (''Arena Survivor v'' @ c # r) =
           getSubstitution template (''Arena Survivor v'' @ c # takeWhile isVersionChar r) preceding
             (dropWhile isVersionChar r)
           @ replace_global VERSION_TOKEN_RE template
               (preceding @ ''Arena Survivor v'' @ c # takeWhile isVersionChar r)
               (dropWhile isVersionChar r)"
proof (rule replace_global_match_step)
  show "firstMatch (VERSION_TOKEN_RE (''Arena Survivor v'' @ c # r)) = Some (dropWhile isVersionChar r)"
    by (rule VERSION_TOKEN_RE_first [OF assms])
  show "''Arena Survivor v'' @ c # r =
      (''Arena Survivor v'' @ c # takeWhile isVersionChar r) @ dropWhile isVersionChar r"
    by simp
  show "''Arena Survivor v'' @ c # takeWhile isVersionChar r \<noteq> []" by simp
qed

lemma replace_global_skip:
  assumes "\<And>a1 a2. a = a1 @ a2 \<Longrightarrow> a2 \<noteq> [] \<Longrightarrow> m (a2 @ s) = []"
  shows "replace_global m template preceding (a @ s) = a @ replace_global m template (preceding @ a) s"
  using assms
proof (induction a arbitrary: preceding)
  case Nil
  then show ?case by simp
next
  case (Cons x a)
  have here: "m (x # a @ s) = []" using Cons.prems [of "[]" "x # a"] by simp
  have "replace_global m template (preceding @ [x]) (a @ s)
      = a @ replace_global m template ((preceding @ [x]) @ a) s"
  proof (rule Cons.IH)
    fix a1 a2 assume "a = a1 @ a2" "a2 \<noteq> []"
    then show "m (a2 @ s) = []" using Cons.prems [of "x # a1" a2] by simp
  qed
  with here show ?case by (subst replace_global.simps) (simp add: firstMatch_def)
qed

lemma replace_global_preceding:
  assumes "CHR ''$'' \<notin> set template"
  shows "replace_global m template p s = replace_global m template p' s"
proof (induction "length s" arbitrary: s p p' rule: less_induct)
  case less
  show ?case
  proof (cases "firstMatch (m s)")
    case None
    show ?thesis
    proof (cases s)
      case Nil
      with None show ?thesis by (subst (1 2) replace_global.simps) simp
    next
      case (Cons c t)
      have "replace_global m template (p @ [c]) t = replace_global m template (p' @ [c]) t"
        by (rule less) (simp add: Cons)
      with None Cons show ?thesis by (subst (1 2) replace_global.simps) simp
    qed
  next
    case (Some rest)
    show ?thesis
    proof (cases "length rest < length s")
      case True
      let ?matched = "take (length s - length rest) s"
      have "replace_global m template (p @ ?matched) rest = replace_global m template (p' @ ?matched) rest"
        by (rule less) (rule True)
      with Some True show ?thesis
        by (subst (1 2) replace_global.simps) (simp add: Let_def getSubstitution_no_dollar [OF assms])
    next
      case False
      show ?thesis
      proof (cases s)
        case Nil
        with Some False show ?thesis
          by (subst (1 2) replace_global.simps) (simp add: Let_def getSubstitution_no_dollar [OF assms])
      next
        case (Cons c t)
        have "replace_global m template (p @ [c]) t = replace_global m template (p' @ [c]) t"
          by (rule less) (simp add: Cons)
        with Some False Cons show ?thesis
          by (subst (1 2) replace_global.simps) (simp add: Let_def getSubstitution_no_dollar [OF assms])
      qed
    qed
  qed
qed

lemma version_rewrite_first_token:
  assumes nv: "CHR ''$'' \<notin> set newVersion"
    and c: "isVersionChar c"
    and first: "\<And>a1 a2. a = a1 @ a2 \<Longrightarrow> a2 \<noteq> [] \<Longrightarrow>
                  VERSION_TOKEN_RE (a2 @ ''Arena Survivor v'' @ c # r) = []"
  shows "updateVersionString (a @ ''Arena Survivor v'' @ c # r) newVersion =
           a @ ''Arena Survivor v'' @ newVersion
             @ updateVersionString (dropWhile isVersionChar r) newVersion"
proof -
  let ?T = "''Arena Survivor v'' @ newVersion"
  have T: "CHR ''$'' \<notin> set ?T" using nv by simp
  have "updateVersionString (a @ ''Arena Survivor v'' @ c # r) newVersion
      = a @ replace_global VERSION_TOKEN_RE ?T ([] @ a) (''Arena Survivor v'' @ c # r)"
    unfolding updateVersionString_def by (rule replace_global_skip) (rule first)
  also have "replace_global VERSION_TOKEN_RE ?T ([] @ a) (''Arena Survivor v'' @ c # r)
      = ?T @ replace_global VERSION_TOKEN_RE ?T
               (([] @ a) @ ''Arena Survivor v'' @ c # takeWhile isVersionChar r)
               (dropWhile isVersionChar r)"
    by (simp only: replace_global_at_token [OF c] getSubstitution_no_dollar [OF T])
  also have "replace_global VERSION_TOKEN_RE ?T
               (([] @ a) @ ''Arena Survivor v'' @ c # takeWhile isVersionChar r)
               (dropWhile isVersionChar r)
      = updateVersionString (dropWhile isVersionChar r) newVersion"
    unfolding updateVersionString_def by (rule replace_global_preceding [OF T])
  finally show ?thesis by simp
qed

lemma version_rewrite_two_places:
  "updateVersionString ''<title>Arena Survivor v0.00</title>\<newline>ctx.fillText('Arena Survivor v0.00', 10, 20);'' ''0.02''
     = ''<title>Arena Survivor v0.02</title>\<newline>ctx.fillText('Arena Survivor v0.02', 10, 20);''"
  by code_simp

text \<open>
  Claim C9 (no watermark, no change). A document in which the expression
  \<^verbatim>\<open>/Arena Survivor v[\d.]+/\<close> matches nowhere, that is, which has no occurrence of
  \<^verbatim>\<open>Arena Survivor v\<close> followed by a digit or a dot, is returned unchanged by
  \<open>updateVersionString\<close>, whatever the new version is.
\<close>

theorem version_rewrite_identity_without_token:
  assumes "\<not> (\<exists>a c r. html = a @ ''Arena Survivor v'' @ c # r \<and> isVersionChar c)"
  shows "updateVersionString html newVersion = html"
proof -
  have "VERSION_TOKEN_RE b = []" if "html = a @ b" for a b
  proof (rule ccontr)
    assume "VERSION_TOKEN_RE b \<noteq> []"
    then obtain c r where "b = ''Arena Survivor v'' @ c # r" "isVersionChar c"
      using VERSION_TOKEN_RE_empty [of b] by blast
    with that assms show False by blast
  qed
  then show ?thesis
    unfolding updateVersionString_def by (rule replace_global_no_match)
qed

theorem version_rewrite_identity_without_token_witness:
  "updateVersionString ''<title>Arena Survivor vNext</title>'' ''0.02'' = ''<title>Arena Survivor vNext</title>''"
proof -
  let ?html = "''<title>Arena Survivor vNext</title>''"
  have "search VERSION_TOKEN_RE ?html = None" by code_simp
  then have "\<forall>a b. ?html = a @ b \<longrightarrow> VERSION_TOKEN_RE b = []" by (simp only: search_None_iff)
  then have h: "\<not> (\<exists>a c r. ?html = a @ ''Arena Survivor v'' @ c # r \<and> isVersionChar c)"
    using VERSION_TOKEN_RE_empty by blast
  from version_rewrite_identity_without_token [OF h] show ?thesis .
qed

text \<open>
  Claim C5 (every occurrence carries the new version), at an input where the code
  departs from it. The new version is spliced into the replacement text of
  \<^verbatim>\<open>replace\<close>, where a dollar sign starts a pattern: for the new version \<^verbatim>\<open>$&\<close> the
  occurrence is replaced by \<^verbatim>\<open>Arena Survivor v\<close> followed by the old occurrence, and
  not by \<^verbatim>\<open>Arena Survivor v$&\<close>. For a new version without a dollar sign the claim
  holds: \<open>version_rewrite_first_token\<close> replaces the leftmost occurrence and goes on
  behind it, and \<open>version_rewrite_two_places\<close> is the rewrite from 0.00 to 0.02 in two
  places.
\<close>

theorem dollar_pattern_in_version:
  "updateVersionString ''<title>Arena Survivor v0.00</title>'' ''$&'' = ''<title>Arena Survivor vArena Survivor v0.00</title>''"
  by code_simp

section \<open>The validator\<close>

lemma includes_str_iff: "includes_str s t \<longleftrightarrow> (\<exists>a b. s = a @ t @ b)"
proof (induction s)
  case Nil
  then show ?case by simp
next
  case (Cons c cs)
  show ?case
  proof
    assume "includes_str (c # cs) t"
    then consider "startsWith (c # cs) t" | "includes_str cs t" by auto
    then show "\<exists>a b. c # cs = a @ t @ b"
    proof cases
      case 1
      then obtain r where "c # cs = t @ r" by (auto simp: startsWith_iff)
      then have "c # cs = [] @ t @ r" by simp
      then show ?thesis by blast
    next
      case 2
      with Cons.IH obtain a b where "cs = a @ t @ b" by blast
      then have "c # cs = (c # a) @ t @ b" by simp
      then show ?thesis by blast
    qed
  next
    assume "\<exists>a b. c # cs = a @ t @ b"
    then obtain a b where ab: "c # cs = a @ t @ b" by blast
    show "includes_str (c # cs) t"
    proof (cases a)
      case Nil
      with ab have "startsWith (c # cs) t" by (auto simp: startsWith_iff)
      then show ?thesis by simp
    next
      case (Cons x a')
      with ab have "cs = a' @ t @ b" by simp
      with Cons.IH have "includes_str cs t" by blast
      then show ?thesis by simp
    qed
  qed
qed

lemma includes_str_subset: "includes_str s t \<Longrightarrow> set t \<subseteq> set s"
  by (auto simp: includes_str_iff)

lemma includes_strI: "s = a @ t @ b \<Longrightarrow> includes_str s t"
  by (auto simp: includes_str_iff)

declare includes_str.simps [simp del]

lemma length_split_nl: "length (split_nl s) = Suc (length (filter (\<lambda>c. c = CHR 0x0A) s))"
proof (induction s)
  case Nil
  show ?case by simp
next
  case (Cons c cs)
  obtain l ls where "split_nl cs = l # ls"
    using split_nl_not_Nil [of cs] by (cases "split_nl cs") auto
  with Cons show ?case by auto
qed

lemma foldl_push_if:
  "foldl (\<lambda>errs b. push_if (Q b) (E b) errs) errs0 bs = errs0 @ map E (filter Q bs)"
  by (induction bs arbitrary: errs0) (simp_all add: push_if_def)

lemma validate_eq:
  "validate html =
     (if includes_str html ''</script>'' then [] else [MissingScriptTag])
     @ (if includes_str html ''</html>'' then [] else [MissingHtmlTag])
     @ map MissingSectionBanner (filter (\<lambda>b. \<not> includes_str html b) (map snd SECTION_MAP))
     @ (if length (split_nl html) > 4000 then [FileTooLarge (length (split_nl html))] else [])
     @ (case search SCRIPT_RE html of
          None \<Rightarrow> []
        | Some js \<Rightarrow> if count_braces js \<noteq> 0 then [BraceImbalance (count_braces js)] else [])"
  unfolding validate_def Let_def foldl_push_if
  by (simp add: push_if_def split: option.splits)

text \<open>
  Claim C7 (the validator does not stop at the first violation). Each check
  contributes to the result by itself: the message of a check is in the result exactly
  when that check fails, whatever the other checks find. The checks are the two
  closing tags, every banner text of the table, the ceiling of 4000 lines, and the
  balance of braces in the first script element. In particular a document that lacks
  a banner text and has more than 4000 lines is reported for both.
\<close>

theorem validate_reports_every_violation:
  "(MissingScriptTag \<in> set (validate html) \<longleftrightarrow> \<not> includes_str html ''</script>'')
   \<and> (MissingHtmlTag \<in> set (validate html) \<longleftrightarrow> \<not> includes_str html ''</html>'')
   \<and> (MissingSectionBanner b \<in> set (validate html) \<longleftrightarrow>
        b \<in> snd ` set SECTION_MAP \<and> \<not> includes_str html b)
   \<and> (FileTooLarge n \<in> set (validate html) \<longleftrightarrow> n = length (split_nl html) \<and> 4000 < n)
   \<and> (BraceImbalance k \<in> set (validate html) \<longleftrightarrow>
        (\<exists>js. search SCRIPT_RE html = Some js \<and> count_braces js = k \<and> k \<noteq> 0))
   \<and> (b \<in> snd ` set SECTION_MAP \<and> \<not> includes_str html b \<and> 4000 < length (split_nl html) \<longrightarrow>
        MissingSectionBanner b \<in> set (validate html)
        \<and> FileTooLarge (length (split_nl html)) \<in> set (validate html))"
proof -
  have 1: "MissingScriptTag \<in> set (validate html) \<longleftrightarrow> \<not> includes_str html ''</script>''"
    unfolding validate_eq by (auto split: option.splits)
  have 2: "MissingHtmlTag \<in> set (validate html) \<longleftrightarrow> \<not> includes_str html ''</html>''"
    unfolding validate_eq by (auto split: option.splits)
  have 3: "MissingSectionBanner b \<in> set (validate html) \<longleftrightarrow>
        b \<in> snd ` set SECTION_MAP \<and> \<not> includes_str html b"
    unfolding validate_eq by (auto split: option.splits)
  have 4: "FileTooLarge m \<in> set (validate html) \<longleftrightarrow> m = length (split_nl html) \<and> 4000 < m" for m
    unfolding validate_eq by (auto split: option.splits)
  have 5: "BraceImbalance k \<in> set (validate html) \<longleftrightarrow>
        (\<exists>js. search SCRIPT_RE html = Some js \<and> count_braces js = k \<and> k \<noteq> 0)"
    unfolding validate_eq by (cases "search SCRIPT_RE html") auto
  have 6: "b \<in> snd ` set SECTION_MAP \<and> \<not> includes_str html b \<and> 4000 < length (split_nl html) \<longrightarrow>
        MissingSectionBanner b \<in> set (validate html)
        \<and> FileTooLarge (length (split_nl html)) \<in> set (validate html)"
    using 3 4 [of "length (split_nl html)"] by blast
  from 1 2 3 4 [of n] 5 6 show ?thesis by (intro conjI)
qed

theorem validate_reports_every_violation_witness:
  "MissingSectionBanner ''CONFIG'' \<in> set (validate (replicate 4000 (CHR 0x0A)))
   \<and> FileTooLarge 4001 \<in> set (validate (replicate 4000 (CHR 0x0A)))"
proof -
  let ?html = "replicate 4000 (CHR 0x0A)"
  have h1: "''CONFIG'' \<in> snd ` set SECTION_MAP" by (simp add: SECTION_MAP_def)
  have h2: "\<not> includes_str ?html ''CONFIG''"
  proof
    assume "includes_str ?html ''CONFIG''"
    from includes_str_subset [OF this] show False by simp
  qed
  have len: "length (split_nl ?html) = 4001" by (simp add: length_split_nl)
  then have h3: "4000 < length (split_nl ?html)" by simp
  from validate_reports_every_violation [of ?html "''CONFIG''"] h1 h2 h3 len
  show ?thesis by simp
qed

section \<open>The orchestrator\<close>

lemma perform_log:
  assumes "perform fails e w = Some w'"
  shows "log w' = log w @ [e]"
proof -
  from assms have nf: "\<not> fails e" by (auto simp: perform_def split: if_splits)
  with assms show ?thesis
    by (cases e) (auto simp: perform_def split: option.splits)
qed

lemma archive_write_dst: "\<not> archive_write (CopyFile src dst) \<Longrightarrow> dst \<noteq> ARCHIVE v"
  by (cases dst) auto

lemma archive_write_file: "\<not> archive_write (WriteFile f text) \<Longrightarrow> f \<noteq> ARCHIVE v"
  by (cases f) auto

lemma perform_archive:
  assumes "perform fails e w = Some w'" and "\<not> archive_write e" and "e \<noteq> Unlink (ARCHIVE v)"
  shows "disk w' (ARCHIVE v) = disk w (ARCHIVE v)"
proof -
  from assms(1) have nf: "\<not> fails e" by (auto simp: perform_def split: if_splits)
  show ?thesis
  proof (cases e)
    case (CopyFile src dst)
    with assms(2) have "dst \<noteq> ARCHIVE v" by (simp add: archive_write_dst)
    with assms(1) nf CopyFile show ?thesis
      by (auto simp: perform_def split: option.splits)
  next
    case (WriteFile f body)
    with assms(2) have "f \<noteq> ARCHIVE v" by (simp add: archive_write_file)
    with assms(1) nf WriteFile show ?thesis
      by (auto simp: perform_def split: option.splits)
  next
    case (Unlink f)
    with assms(3) have "f \<noteq> ARCHIVE v" by simp
    with assms(1) nf Unlink show ?thesis
      by (auto simp: perform_def split: option.splits)
  next
    case (ExecSync command)
    with assms(1) nf show ?thesis
      by (auto simp: perform_def split: option.splits)
  qed
qed

lemma perform_Some:
  assumes "perform fails e w = Some w'"
  shows "log w' = log w @ [e]"
    and "\<not> archive_write e \<Longrightarrow> e \<noteq> Unlink (ARCHIVE v) \<Longrightarrow> disk w' (ARCHIVE v) = disk w (ARCHIVE v)"
  using assms perform_log perform_archive by blast+

lemma restore_backup_log:
  "\<exists>rest. log (final (restore_backup env w)) = log w @ rest \<and> (\<forall>e\<in>set rest. \<not> archive_write e)
     \<and> (\<forall>v. disk (final (restore_backup env w)) (ARCHIVE v) = disk w (ARCHIVE v))"
proof (cases "perform (io_fails env) (CopyFile INDEX_BAK INDEX) w")
  case None
  then show ?thesis by (simp add: restore_backup_def stop_def)
next
  case (Some w')
  from perform_Some [OF Some] have "log w' = log w @ [CopyFile INDEX_BAK INDEX]"
    "\<And>v. disk w' (ARCHIVE v) = disk w (ARCHIVE v)" by simp_all
  with Some show ?thesis by (simp add: restore_backup_def stop_def)
qed

lemma gitCommit_log:
  "\<exists>rest. log (gitCommit env version subject w) = log w @ rest
         \<and> (\<forall>e\<in>set rest. \<not> archive_write e)
         \<and> (shell_safe (commit_message version subject) \<longrightarrow>
              disk (gitCommit env version subject w) = disk w)"
proof (cases "perform (io_fails env) (ExecSync ''git add index.html GAME-REFERENCE.md'') w")
  case None
  then show ?thesis by (simp add: gitCommit_def)
next
  case s1: (Some w1)
  let ?msg = "commit_message version subject"
  let ?w2 = "w1\<lparr>disk := (if shell_safe ?msg then disk w1
                          else shell env (commit_command ?msg) (disk w1))\<rparr>"
  from s1 have w1: "log w1 = log w @ [ExecSync ''git add index.html GAME-REFERENCE.md'']"
    "disk w1 = disk w"
    by (auto simp: perform_def split: if_splits)
  show ?thesis
  proof (cases "perform (io_fails env) (ExecSync (commit_command ?msg)) ?w2")
    case None
    with s1 have "gitCommit env version subject w = ?w2" by (simp add: gitCommit_def Let_def)
    with w1 show ?thesis by simp
  next
    case s3: (Some w3)
    then have w3: "log w3 = log ?w2 @ [ExecSync (commit_command ?msg)]" "disk w3 = disk ?w2"
      by (auto simp: perform_def split: if_splits)
    from s1 s3 have "gitCommit env version subject w = w3" by (simp add: gitCommit_def Let_def)
    with w1 w3 show ?thesis by simp
  qed
qed

lemma write_files_log:
  "\<exists>rest. log (final (write_files env m newHtml w)) = log w @ rest
         \<and> (\<forall>e\<in>set rest. \<not> archive_write e)
         \<and> (shell_safe (commit_message (versionNumber m) (summary m)) \<longrightarrow>
              (\<forall>v. disk (final (write_files env m newHtml w)) (ARCHIVE v) = disk w (ARCHIVE v)))"
proof (cases "perform (io_fails env) (CopyFile INDEX INDEX_BAK) w")
  case None
  then show ?thesis by (simp add: write_files_def stop_def)
next
  case s2: (Some w2)
  from perform_Some [OF s2] have w2: "log w2 = log w @ [CopyFile INDEX INDEX_BAK]"
    "\<And>v. disk w2 (ARCHIVE v) = disk w (ARCHIVE v)" by simp_all
  show ?thesis
  proof (cases "perform (io_fails env) (WriteFile INDEX newHtml) w2")
    case None
    with s2 have "write_files env m newHtml w = restore_backup env w2" by (simp add: write_files_def)
    with restore_backup_log [of env w2] w2 show ?thesis by auto
  next
    case s3: (Some w3)
    from perform_Some [OF s3] have w3: "log w3 = log w2 @ [WriteFile INDEX newHtml]"
      "\<And>v. disk w3 (ARCHIVE v) = disk w2 (ARCHIVE v)" by simp_all
    show ?thesis
    proof (cases "perform (io_fails env) (WriteFile REFERENCE (referenceDoc m)) w3")
      case None
      with s2 s3 have "write_files env m newHtml w = restore_backup env w3" by (simp add: write_files_def)
      with restore_backup_log [of env w3] w2 w3 show ?thesis by auto
    next
      case s4: (Some w4)
      from perform_Some [OF s4] have w4: "log w4 = log w3 @ [WriteFile REFERENCE (referenceDoc m)]"
        "\<And>v. disk w4 (ARCHIVE v) = disk w3 (ARCHIVE v)" by simp_all
      show ?thesis
      proof (cases "perform (io_fails env) (Unlink INDEX_BAK) w4")
        case None
        with s2 s3 s4 have "write_files env m newHtml w = stop FatalError w4" by (simp add: write_files_def)
        with w2 w3 w4 show ?thesis by (simp add: stop_def)
      next
        case s5: (Some w5)
        from perform_Some [OF s5] have w5: "log w5 = log w4 @ [Unlink INDEX_BAK]"
          "\<And>v. disk w5 (ARCHIVE v) = disk w4 (ARCHIVE v)" by simp_all
        from s2 s3 s4 s5 have run: "write_files env m newHtml w =
            stop Success (gitCommit env (versionNumber m) (summary m) w5)"
          by (simp add: write_files_def)
        from gitCommit_log [of env "versionNumber m" "summary m" w5] obtain rest where
          rest: "log (gitCommit env (versionNumber m) (summary m) w5) = log w5 @ rest"
            "\<forall>e\<in>set rest. \<not> archive_write e"
            "shell_safe (commit_message (versionNumber m) (summary m)) \<longrightarrow>
               disk (gitCommit env (versionNumber m) (summary m) w5) = disk w5"
          by blast
        let ?rest = "[CopyFile INDEX INDEX_BAK, WriteFile INDEX newHtml,
            WriteFile REFERENCE (referenceDoc m), Unlink INDEX_BAK] @ rest"
        have "log (final (write_files env m newHtml w)) = log w @ ?rest"
          using run rest(1) w2 w3 w4 w5 by (simp add: stop_def)
        moreover have "\<forall>e\<in>set ?rest. \<not> archive_write e" using rest(2) by simp
        moreover have "shell_safe (commit_message (versionNumber m) (summary m)) \<longrightarrow>
            (\<forall>v. disk (final (write_files env m newHtml w)) (ARCHIVE v) = disk w (ARCHIVE v))"
          using run rest(3) w2 w3 w4 w5 by (simp add: stop_def)
        ultimately show ?thesis by blast
      qed
    qed
  qed
qed

lemma main_reaches_validation:
  assumes "d0 DNA = Some dnaContent" "d0 REFERENCE = Some referenceContent"
    "d0 SUBMISSIONS = Some submissionsContent" "d0 INDEX = Some indexHtml"
    and "filter (\<lambda>l. trim l \<noteq> [] \<and> \<not> startsWith l ''#'' \<and> \<not> startsWith l ''<!--'')
            (split_nl submissionsContent) \<noteq> []"
    and "api_key_set env"
    and "response env = ToolUse m"
    and "applySectionChanges indexHtml (sectionChanges m) = Inr appliedHtml"
  shows "main env d0 =
    (let w0 = \<lparr>disk = d0, log = []\<rparr>;
         newHtml = updateVersionString appliedHtml (versionNumber m);
         errors = validate newHtml
     in if errors \<noteq> [] \<and> \<not> DRY_RUN env
        then \<lparr>status = ValidationAborted, printed_errors = errors, final = w0\<rparr>
        else if DRY_RUN env
        then \<lparr>status = DryRunDone, printed_errors = errors, final = w0\<rparr>
        else persist env (getCurrentVersion indexHtml) m newHtml w0)"
  using assms by (simp add: main_def Let_def)

lemma dry_run_writes_nothing:
  "DRY_RUN env \<Longrightarrow> final (main env d0) = \<lparr>disk = d0, log = []\<rparr>"
  by (simp add: main_def Let_def stop_def split: option.splits response.splits sum.splits)

lemma apply_failure_writes_nothing:
  assumes "d0 DNA = Some dnaContent" "d0 REFERENCE = Some referenceContent"
    "d0 SUBMISSIONS = Some submissionsContent" "d0 INDEX = Some indexHtml"
    and "filter (\<lambda>l. trim l \<noteq> [] \<and> \<not> startsWith l ''#'' \<and> \<not> startsWith l ''<!--'')
            (split_nl submissionsContent) \<noteq> []"
    and "api_key_set env"
    and "response env = ToolUse m"
    and "applySectionChanges indexHtml (sectionChanges m) = Inl err"
  shows "main env d0 = \<lparr>status = ApplyFailed err, printed_errors = [], final = \<lparr>disk = d0, log = []\<rparr>\<rparr>"
  using assms by (simp add: main_def Let_def stop_def)

lemma validate_okI:
  assumes "includes_str html ''</script>''" "includes_str html ''</html>''"
    and "\<forall>b\<in>set (map snd SECTION_MAP). includes_str html b"
    and "length (split_nl html) \<le> 4000"
    and "search SCRIPT_RE html = Some js" "count_braces js = 0"
  shows "validate html = []"
  unfolding validate_eq using assms by (simp add: filter_empty_conv)

lemma valid_document_rewritten:
  "updateVersionString valid_document ''1.00'' = ''Arena Survivor v1.00 CONFIG SKETCH HELPERS CANVAS STATE INPUT UPGRADES PLAYER UPDATE ENEMIES PROJECTILES KILL / XP PARTICLES DRAW HUD GAME OVER AUDIO DEXSCREENER + GROWTH SYSTEM GAME LOOP START / RESTART INIT </html><script>{}</script>''"
  unfolding valid_document_def by code_simp

lemma valid_document_rewritten_ok: "validate ''Arena Survivor v1.00 CONFIG SKETCH HELPERS CANVAS STATE INPUT UPGRADES PLAYER UPDATE ENEMIES PROJECTILES KILL / XP PARTICLES DRAW HUD GAME OVER AUDIO DEXSCREENER + GROWTH SYSTEM GAME LOOP START / RESTART INIT </html><script>{}</script>'' = []"
proof (rule validate_okI)
  have "includes_str ''Arena Survivor v1.00 CONFIG SKETCH HELPERS CANVAS STATE INPUT UPGRADES PLAYER UPDATE ENEMIES PROJECTILES KILL / XP PARTICLES DRAW HUD GAME OVER AUDIO DEXSCREENER + GROWTH SYSTEM GAME LOOP START / RESTART INIT </html><script>{}</script>'' ''</script>''"
    by (rule includes_strI [where a = "''Arena Survivor v1.00 CONFIG SKETCH HELPERS CANVAS STATE INPUT UPGRADES PLAYER UPDATE ENEMIES PROJECTILES KILL / XP PARTICLES DRAW HUD GAME OVER AUDIO DEXSCREENER + GROWTH SYSTEM GAME LOOP START / RESTART INIT </html><script>{}''" and b = "''''"]) simp
    then show "includes_str ''Arena Survivor v1.00 CONFIG SKETCH HELPERS CANVAS STATE INPUT UPGRADES PLAYER UPDATE ENEMIES PROJECTILES KILL / XP PARTICLES DRAW HUD GAME OVER AUDIO DEXSCREENER + GROWTH SYSTEM GAME LOOP START / RESTART INIT </html><script>{}</script>'' ''</script>''" .
  have "includes_str ''Arena Survivor v1.00 CONFIG SKETCH HELPERS CANVAS STATE INPUT UPGRADES PLAYER UPDATE ENEMIES PROJECTILES KILL / XP PARTICLES DRAW HUD GAME OVER AUDIO DEXSCREENER + GROWTH SYSTEM GAME LOOP START / RESTART INIT </html><script>{}</script>'' ''</html>''"
    by (rule includes_strI [where a = "''Arena Survivor v1.00 CONFIG SKETCH HELPERS CANVAS STATE INPUT UPGRADES PLAYER UPDATE ENEMIES PROJECTILES KILL / XP PARTICLES DRAW HUD GAME OVER AUDIO DEXSCREENER + GROWTH SYSTEM GAME LOOP START / RESTART INIT ''" and b = "''<script>{}</script>''"]) simp
    then show "includes_str ''Arena Survivor v1.00 CONFIG SKETCH HELPERS CANVAS STATE INPUT UPGRADES PLAYER UPDATE ENEMIES PROJECTILES KILL / XP PARTICLES DRAW HUD GAME OVER AUDIO DEXSCREENER + GROWTH SYSTEM GAME LOOP START / RESTART INIT </html><script>{}</script>'' ''</html>''" .
  show "\<forall>b\<in>set (map snd SECTION_MAP). includes_str ''Arena Survivor v1.00 CONFIG SKETCH HELPERS CANVAS STATE INPUT UPGRADES PLAYER UPDATE ENEMIES PROJECTILES KILL / XP PARTICLES DRAW HUD GAME OVER AUDIO DEXSCREENER + GROWTH SYSTEM GAME LOOP START / RESTART INIT </html><script>{}</script>'' b"
  proof -
    have b0: "includes_str ''Arena Survivor v1.00 CONFIG SKETCH HELPERS CANVAS STATE INPUT UPGRADES PLAYER UPDATE ENEMIES PROJECTILES KILL / XP PARTICLES DRAW HUD GAME OVER AUDIO DEXSCREENER + GROWTH SYSTEM GAME LOOP START / RESTART INIT </html><script>{}</script>'' ''CONFIG''"
      by (rule includes_strI [where a = "''Arena Survivor v1.00 ''" and b = "'' SKETCH HELPERS CANVAS STATE INPUT UPGRADES PLAYER UPDATE ENEMIES PROJECTILES KILL / XP PARTICLES DRAW HUD GAME OVER AUDIO DEXSCREENER + GROWTH SYSTEM GAME LOOP START / RESTART INIT </html><script>{}</script>''"]) simp
    have b1: "includes_str ''Arena Survivor v1.00 CONFIG SKETCH HELPERS CANVAS STATE INPUT UPGRADES PLAYER UPDATE ENEMIES PROJECTILES KILL / XP PARTICLES DRAW HUD GAME OVER AUDIO DEXSCREENER + GROWTH SYSTEM GAME LOOP START / RESTART INIT </html><script>{}</script>'' ''SKETCH HELPERS''"
      by (rule includes_strI [where a = "''Arena Survivor v1.00 CONFIG ''" and b = "'' CANVAS STATE INPUT UPGRADES PLAYER UPDATE ENEMIES PROJECTILES KILL / XP PARTICLES DRAW HUD GAME OVER AUDIO DEXSCREENER + GROWTH SYSTEM GAME LOOP START / RESTART INIT </html><script>{}</script>''"]) simp
    have b2: "includes_str ''Arena Survivor v1.00 CONFIG SKETCH HELPERS CANVAS STATE INPUT UPGRADES PLAYER UPDATE ENEMIES PROJECTILES KILL / XP PARTICLES DRAW HUD GAME OVER AUDIO DEXSCREENER + GROWTH SYSTEM GAME LOOP START / RESTART INIT </html><script>{}</script>'' ''CANVAS''"
      by (rule includes_strI [where a = "''Arena Survivor v1.00 CONFIG SKETCH HELPERS ''" and b = "'' STATE INPUT UPGRADES PLAYER UPDATE ENEMIES PROJECTILES KILL / XP PARTICLES DRAW HUD GAME OVER AUDIO DEXSCREENER + GROWTH SYSTEM GAME LOOP START / RESTART INIT </html><script>{}</script>''"]) simp
    have b3: "includes_str ''Arena Survivor v1.00 CONFIG SKETCH HELPERS CANVAS STATE INPUT UPGRADES PLAYER UPDATE ENEMIES PROJECTILES KILL / XP PARTICLES DRAW HUD GAME OVER AUDIO DEXSCREENER + GROWTH SYSTEM GAME LOOP START / RESTART INIT </html><script>{}</script>'' ''STATE''"
      by (rule includes_strI [where a = "''Arena Survivor v1.00 CONFIG SKETCH HELPERS CANVAS ''" and b = "'' INPUT UPGRADES PLAYER UPDATE ENEMIES PROJECTILES KILL / XP PARTICLES DRAW HUD GAME OVER AUDIO DEXSCREENER + GROWTH SYSTEM GAME LOOP START / RESTART INIT </html><script>{}</script>''"]) simp
    have b4: "includes_str ''Arena Survivor v1.00 CONFIG SKETCH HELPERS CANVAS STATE INPUT UPGRADES PLAYER UPDATE ENEMIES PROJECTILES KILL / XP PARTICLES DRAW HUD GAME OVER AUDIO DEXSCREENER + GROWTH SYSTEM GAME LOOP START / RESTART INIT </html><script>{}</script>'' ''INPUT''"
      by (rule includes_strI [where a = "''Arena Survivor v1.00 CONFIG SKETCH HELPERS CANVAS STATE ''" and b = "'' UPGRADES PLAYER UPDATE ENEMIES PROJECTILES KILL / XP PARTICLES DRAW HUD GAME OVER AUDIO DEXSCREENER + GROWTH SYSTEM GAME LOOP START / RESTART INIT </html><script>{}</script>''"]) simp
    have b5: "includes_str ''Arena Survivor v1.00 CONFIG SKETCH HELPERS CANVAS STATE INPUT UPGRADES PLAYER UPDATE ENEMIES PROJECTILES KILL / XP PARTICLES DRAW HUD GAME OVER AUDIO DEXSCREENER + GROWTH SYSTEM GAME LOOP START / RESTART INIT </html><script>{}</script>'' ''UPGRADES''"
      by (rule includes_strI [where a = "''Arena Survivor v1.00 CONFIG SKETCH HELPERS CANVAS STATE INPUT ''" and b = "'' PLAYER UPDATE ENEMIES PROJECTILES KILL / XP PARTICLES DRAW HUD GAME OVER AUDIO DEXSCREENER + GROWTH SYSTEM GAME LOOP START / RESTART INIT </html><script>{}</script>''"]) simp
    have b6: "includes_str ''Arena Survivor v1.00 CONFIG SKETCH HELPERS CANVAS STATE INPUT UPGRADES PLAYER UPDATE ENEMIES PROJECTILES KILL / XP PARTICLES DRAW HUD GAME OVER AUDIO DEXSCREENER + GROWTH SYSTEM GAME LOOP START / RESTART INIT </html><script>{}</script>'' ''PLAYER UPDATE''"
      by (rule includes_strI [where a = "''Arena Survivor v1.00 CONFIG SKETCH HELPERS CANVAS STATE INPUT UPGRADES ''" and b = "'' ENEMIES PROJECTILES KILL / XP PARTICLES DRAW HUD GAME OVER AUDIO DEXSCREENER + GROWTH SYSTEM GAME LOOP START / RESTART INIT </html><script>{}</script>''"]) simp
    have b7: "includes_str ''Arena Survivor v1.00 CONFIG SKETCH HELPERS CANVAS STATE INPUT UPGRADES PLAYER UPDATE ENEMIES PROJECTILES KILL / XP PARTICLES DRAW HUD GAME OVER AUDIO DEXSCREENER + GROWTH SYSTEM GAME LOOP START / RESTART INIT </html><script>{}</script>'' ''ENEMIES''"
      by (rule includes_strI [where a = "''Arena Survivor v1.00 CONFIG SKETCH HELPERS CANVAS STATE INPUT UPGRADES PLAYER UPDATE ''" and b = "'' PROJECTILES KILL / XP PARTICLES DRAW HUD GAME OVER AUDIO DEXSCREENER + GROWTH SYSTEM GAME LOOP START / RESTART INIT </html><script>{}</script>''"]) simp
    have b8: "includes_str ''Arena Survivor v1.00 CONFIG SKETCH HELPERS CANVAS STATE INPUT UPGRADES PLAYER UPDATE ENEMIES PROJECTILES KILL / XP PARTICLES DRAW HUD GAME OVER AUDIO DEXSCREENER + GROWTH SYSTEM GAME LOOP START / RESTART INIT </html><script>{}</script>'' ''PROJECTILES''"
      by (rule includes_strI [where a = "''Arena Survivor v1.00 CONFIG SKETCH HELPERS CANVAS STATE INPUT UPGRADES PLAYER UPDATE ENEMIES ''" and b = "'' KILL / XP PARTICLES DRAW HUD GAME OVER AUDIO DEXSCREENER + GROWTH SYSTEM GAME LOOP START / RESTART INIT </html><script>{}</script>''"]) simp
    have b9: "includes_str ''Arena Survivor v1.00 CONFIG SKETCH HELPERS CANVAS STATE INPUT UPGRADES PLAYER UPDATE ENEMIES PROJECTILES KILL / XP PARTICLES DRAW HUD GAME OVER AUDIO DEXSCREENER + GROWTH SYSTEM GAME LOOP START / RESTART INIT </html><script>{}</script>'' ''KILL / XP''"
      by (rule includes_strI [where a = "''Arena Survivor v1.00 CONFIG SKETCH HELPERS CANVAS STATE INPUT UPGRADES PLAYER UPDATE ENEMIES PROJECTILES ''" and b = "'' PARTICLES DRAW HUD GAME OVER AUDIO DEXSCREENER + GROWTH SYSTEM GAME LOOP START / RESTART INIT </html><script>{}</script>''"]) simp
    have b10: "includes_str ''Arena Survivor v1.00 CONFIG SKETCH HELPERS CANVAS STATE INPUT UPGRADES PLAYER UPDATE ENEMIES PROJECTILES KILL / XP PARTICLES DRAW HUD GAME OVER AUDIO DEXSCREENER + GROWTH SYSTEM GAME LOOP START / RESTART INIT </html><script>{}</script>'' ''PARTICLES''"
      by (rule includes_strI [where a = "''Arena Survivor v1.00 CONFIG SKETCH HELPERS CANVAS STATE INPUT UPGRADES PLAYER UPDATE ENEMIES PROJECTILES KILL / XP ''" and b = "'' DRAW HUD GAME OVER AUDIO DEXSCREENER + GROWTH SYSTEM GAME LOOP START / RESTART INIT </html><script>{}</script>''"]) simp
    have b11: "includes_str ''Arena Survivor v1.00 CONFIG SKETCH HELPERS CANVAS STATE INPUT UPGRADES PLAYER UPDATE ENEMIES PROJECTILES KILL / XP PARTICLES DRAW HUD GAME OVER AUDIO DEXSCREENER + GROWTH SYSTEM GAME LOOP START / RESTART INIT </html><script>{}</script>'' ''DRAW''"
      by (rule includes_strI [where a = "''Arena Survivor v1.00 CONFIG SKETCH HELPERS CANVAS STATE INPUT UPGRADES PLAYER UPDATE ENEMIES PROJECTILES KILL / XP PARTICLES ''" and b = "'' HUD GAME OVER AUDIO DEXSCREENER + GROWTH SYSTEM GAME LOOP START / RESTART INIT </html><script>{}</script>''"]) simp
    have b12: "includes_str ''Arena Survivor v1.00 CONFIG SKETCH HELPERS CANVAS STATE INPUT UPGRADES PLAYER UPDATE ENEMIES PROJECTILES KILL / XP PARTICLES DRAW HUD GAME OVER AUDIO DEXSCREENER + GROWTH SYSTEM GAME LOOP START / RESTART INIT </html><script>{}</script>'' ''HUD''"
      by (rule includes_strI [where a = "''Arena Survivor v1.00 CONFIG SKETCH HELPERS CANVAS STATE INPUT UPGRADES PLAYER UPDATE ENEMIES PROJECTILES KILL / XP PARTICLES DRAW ''" and b = "'' GAME OVER AUDIO DEXSCREENER + GROWTH SYSTEM GAME LOOP START / RESTART INIT </html><script>{}</script>''"]) simp
    have b13: "includes_str ''Arena Survivor v1.00 CONFIG SKETCH HELPERS CANVAS STATE INPUT UPGRADES PLAYER UPDATE ENEMIES PROJECTILES KILL / XP PARTICLES DRAW HUD GAME OVER AUDIO DEXSCREENER + GROWTH SYSTEM GAME LOOP START / RESTART INIT </html><script>{}</script>'' ''GAME OVER''"
      by (rule includes_strI [where a = "''Arena Survivor v1.00 CONFIG SKETCH HELPERS CANVAS STATE INPUT UPGRADES PLAYER UPDATE ENEMIES PROJECTILES KILL / XP PARTICLES DRAW HUD ''" and b = "'' AUDIO DEXSCREENER + GROWTH SYSTEM GAME LOOP START / RESTART INIT </html><script>{}</script>''"]) simp
    have b14: "includes_str ''Arena Survivor v1.00 CONFIG SKETCH HELPERS CANVAS STATE INPUT UPGRADES PLAYER UPDATE ENEMIES PROJECTILES KILL / XP PARTICLES DRAW HUD GAME OVER AUDIO DEXSCREENER + GROWTH SYSTEM GAME LOOP START / RESTART INIT </html><script>{}</script>'' ''AUDIO''"
      by (rule includes_strI [where a = "''Arena Survivor v1.00 CONFIG SKETCH HELPERS CANVAS STATE INPUT UPGRADES PLAYER UPDATE ENEMIES PROJECTILES KILL / XP PARTICLES DRAW HUD GAME OVER ''" and b = "'' DEXSCREENER + GROWTH SYSTEM GAME LOOP START / RESTART INIT </html><script>{}</script>''"]) simp
    have b15: "includes_str ''Arena Survivor v1.00 CONFIG SKETCH HELPERS CANVAS STATE INPUT UPGRADES PLAYER UPDATE ENEMIES PROJECTILES KILL / XP PARTICLES DRAW HUD GAME OVER AUDIO DEXSCREENER + GROWTH SYSTEM GAME LOOP START / RESTART INIT </html><script>{}</script>'' ''DEXSCREENER + GROWTH SYSTEM''"
      by (rule includes_strI [where a = "''Arena Survivor v1.00 CONFIG SKETCH HELPERS CANVAS STATE INPUT UPGRADES PLAYER UPDATE ENEMIES PROJECTILES KILL / XP PARTICLES DRAW HUD GAME OVER AUDIO ''" and b = "'' GAME LOOP START / RESTART INIT </html><script>{}</script>''"]) simp
    have b16: "includes_str ''Arena Survivor v1.00 CONFIG SKETCH HELPERS CANVAS STATE INPUT UPGRADES PLAYER UPDATE ENEMIES PROJECTILES KILL / XP PARTICLES DRAW HUD GAME OVER AUDIO DEXSCREENER + GROWTH SYSTEM GAME LOOP START / RESTART INIT </html><script>{}</script>'' ''GAME LOOP''"
      by (rule includes_strI [where a = "''Arena Survivor v1.00 CONFIG SKETCH HELPERS CANVAS STATE INPUT UPGRADES PLAYER UPDATE ENEMIES PROJECTILES KILL / XP PARTICLES DRAW HUD GAME OVER AUDIO DEXSCREENER + GROWTH SYSTEM ''" and b = "'' START / RESTART INIT </html><script>{}</script>''"]) simp
    have b17: "includes_str ''Arena Survivor v1.00 CONFIG SKETCH HELPERS CANVAS STATE INPUT UPGRADES PLAYER UPDATE ENEMIES PROJECTILES KILL / XP PARTICLES DRAW HUD GAME OVER AUDIO DEXSCREENER + GROWTH SYSTEM GAME LOOP START / RESTART INIT </html><script>{}</script>'' ''START / RESTART''"
      by (rule includes_strI [where a = "''Arena Survivor v1.00 CONFIG SKETCH HELPERS CANVAS STATE INPUT UPGRADES PLAYER UPDATE ENEMIES PROJECTILES KILL / XP PARTICLES DRAW HUD GAME OVER AUDIO DEXSCREENER + GROWTH SYSTEM GAME LOOP ''" and b = "'' INIT </html><script>{}</script>''"]) simp
    have b18: "includes_str ''Arena Survivor v1.00 CONFIG SKETCH HELPERS CANVAS STATE INPUT UPGRADES PLAYER UPDATE ENEMIES PROJECTILES KILL / XP PARTICLES DRAW HUD GAME OVER AUDIO DEXSCREENER + GROWTH SYSTEM GAME LOOP START / RESTART INIT </html><script>{}</script>'' ''INIT''"
      by (rule includes_strI [where a = "''Arena Survivor v1.00 CONFIG SKETCH HELPERS CANVAS STATE INPUT UPGRADES PLAYER UPDATE ENEMIES PROJECTILES KILL / XP PARTICLES DRAW HUD GAME OVER AUDIO DEXSCREENER + GROWTH SYSTEM GAME LOOP START / RESTART ''" and b = "'' </html><script>{}</script>''"]) simp
    note b = b0 b1 b2 b3 b4 b5 b6 b7 b8 b9 b10 b11 b12 b13 b14 b15 b16 b17 b18
    show ?thesis by (simp add: SECTION_MAP_def b)
  qed
  show "length (split_nl ''Arena Survivor v1.00 CONFIG SKETCH HELPERS CANVAS STATE INPUT UPGRADES PLAYER UPDATE ENEMIES PROJECTILES KILL / XP PARTICLES DRAW HUD GAME OVER AUDIO DEXSCREENER + GROWTH SYSTEM GAME LOOP START / RESTART INIT </html><script>{}</script>'') \<le> 4000" by (simp only: length_split_nl) simp
  show "search SCRIPT_RE ''Arena Survivor v1.00 CONFIG SKETCH HELPERS CANVAS STATE INPUT UPGRADES PLAYER UPDATE ENEMIES PROJECTILES KILL / XP PARTICLES DRAW HUD GAME OVER AUDIO DEXSCREENER + GROWTH SYSTEM GAME LOOP START / RESTART INIT </html><script>{}</script>'' = Some ''{}''" by code_simp
  show "count_braces ''{}'' = 0" by code_simp
qed

lemma restore_backup_status: "status (restore_backup env w) \<in> {WriteFailed, FatalError}"
  by (simp add: restore_backup_def stop_def split: option.splits)

lemma write_files_status: "status (write_files env m newHtml w) \<in> {Success, WriteFailed, FatalError}"
  using restore_backup_status
  by (auto simp: write_files_def stop_def split: option.splits)

lemma persist_status: "status (persist env cv m newHtml w) \<in> {Success, WriteFailed, FatalError}"
  using write_files_status [of env m newHtml]
  by (auto simp: persist_def stop_def split: option.splits)

lemma early_exit_writes_nothing:
  assumes "status (main env d0) \<notin> {Success, WriteFailed, FatalError}"
  shows "final (main env d0) = \<lparr>disk = d0, log = []\<rparr>"
proof -
  have persisted: False
    if "status (persist env cv m newHtml w) \<noteq> Success"
      "status (persist env cv m newHtml w) \<noteq> WriteFailed"
      "status (persist env cv m newHtml w) \<noteq> FatalError" for cv m newHtml w
    using that persist_status [of env cv m newHtml w] by simp
  show ?thesis
    using assms
    by (auto simp: main_def Let_def stop_def
        split: option.splits response.splits sum.splits if_splits dest: persisted)
qed

text \<open>
  Claim C1 (abort leaves no trace). Take a run that gets as far as validation: the
  four input files exist, there is a submission, the key is set, the service returns
  a proposal, and the proposal applies. If validation of the rewritten document
  returns errors, the run ends with the disk exactly as it found it and without
  having performed any operation (no archive copy, no write of the live document, no
  write of the reference document); the errors are printed; without the dry-run flag
  the run aborts, and with it the run ends as a dry run.
\<close>

theorem abort_leaves_no_trace:
  assumes "d0 DNA = Some dnaContent" "d0 REFERENCE = Some referenceContent"
    "d0 SUBMISSIONS = Some submissionsContent" "d0 INDEX = Some indexHtml"
    and "filter (\<lambda>l. trim l \<noteq> [] \<and> \<not> startsWith l ''#'' \<and> \<not> startsWith l ''<!--'')
            (split_nl submissionsContent) \<noteq> []"
    and "api_key_set env"
    and "response env = ToolUse m"
    and "applySectionChanges indexHtml (sectionChanges m) = Inr appliedHtml"
    and invalid: "validate (updateVersionString appliedHtml (versionNumber m)) \<noteq> []"
  shows "final (main env d0) = \<lparr>disk = d0, log = []\<rparr>
       \<and> printed_errors (main env d0) = validate (updateVersionString appliedHtml (versionNumber m))
       \<and> status (main env d0) = (if DRY_RUN env then DryRunDone else ValidationAborted)"
  using invalid by (simp add: main_reaches_validation [OF assms(1-8)] Let_def)

theorem abort_leaves_no_trace_witness:
  "final (main (example_env False (example_mutation ''0.02'' ''MINOR'')) (example_disk ''<html>''))
     = \<lparr>disk = example_disk ''<html>'', log = []\<rparr>
   \<and> printed_errors (main (example_env False (example_mutation ''0.02'' ''MINOR'')) (example_disk ''<html>''))
     \<noteq> []
   \<and> status (main (example_env False (example_mutation ''0.02'' ''MINOR'')) (example_disk ''<html>''))
     = ValidationAborted"
proof -
  let ?m = "example_mutation ''0.02'' ''MINOR''"
  let ?env = "example_env False ?m"
  let ?d0 = "example_disk ''<html>''"
  have f1: "?d0 DNA = Some ''rules''" by (simp add: example_disk_def)
  have f2: "?d0 REFERENCE = Some ''reference''" by (simp add: example_disk_def)
  have f3: "?d0 SUBMISSIONS = Some ''add a boss''" by (simp add: example_disk_def)
  have f4: "?d0 INDEX = Some ''<html>''" by (simp add: example_disk_def)
  have subs: "filter (\<lambda>l. trim l \<noteq> [] \<and> \<not> startsWith l ''#'' \<and> \<not> startsWith l ''<!--'')
            (split_nl ''add a boss'') \<noteq> []" by code_simp
  have key: "api_key_set ?env" by (simp add: example_env_def)
  have resp: "response ?env = ToolUse ?m" by (simp add: example_env_def)
  have app: "applySectionChanges ''<html>'' (sectionChanges ?m) = Inr ''<html>''"
    by (simp add: applySectionChanges_Nil example_mutation_def)
  have ver: "versionNumber ?m = ''0.02''" by (simp add: example_mutation_def)
  have upd: "updateVersionString ''<html>'' ''0.02'' = ''<html>''" by code_simp
  have "\<not> includes_str ''<html>'' ''</script>''" by code_simp
  then have "MissingScriptTag \<in> set (validate ''<html>'')"
    unfolding validate_eq by simp
  then have inv: "validate (updateVersionString ''<html>'' (versionNumber ?m)) \<noteq> []"
    unfolding ver upd by auto
  have wet: "DRY_RUN ?env = False" by (simp add: example_env_def)
  from abort_leaves_no_trace [OF f1 f2 f3 f4 subs key resp app inv]
  have "final (main ?env ?d0) = \<lparr>disk = ?d0, log = []\<rparr>"
    and "printed_errors (main ?env ?d0) = validate (updateVersionString ''<html>'' (versionNumber ?m))"
    and "status (main ?env ?d0) = (if DRY_RUN ?env then DryRunDone else ValidationAborted)"
    by blast+
  with inv wet show ?thesis by (simp only: if_False simp_thms)
qed

text \<open>
  Claim C6 (archival gating), as the code has it. The copy to the archive is not
  guarded: when it throws, as it does when the directory \<^verbatim>\<open>versions\<close> is missing, a
  \<^verbatim>\<open>MAJOR\<close> run that has reached the persistence phase ends without a snapshot (the
  last statement below is such a run). The amended claim, for a run that reaches the
  persistence phase (validation returns no error and the dry-run flag is not set):
  if the version type is \<^verbatim>\<open>MAJOR\<close> and the copy to the archive does not throw, that
  copy, of the live document to the archive file named after the version of the
  document before the run, is the first operation of the run and no later file
  operation writes an archive file, so the script makes exactly one snapshot and every
  write of the live document comes after it; and when the commit message has no dollar
  sign, backquote or backslash, that archive file holds the document of before the run
  at the end. If the version type is \<^verbatim>\<open>MAJOR\<close> and the copy throws, the run ends with a
  fatal error and nothing written. If the version type is anything else, no file
  operation writes an archive file, and with a commit message as above every archive
  file is at the end as it was.
\<close>

theorem archival_gating:
  assumes "d0 DNA = Some dnaContent" "d0 REFERENCE = Some referenceContent"
    "d0 SUBMISSIONS = Some submissionsContent" "d0 INDEX = Some indexHtml"
    and "filter (\<lambda>l. trim l \<noteq> [] \<and> \<not> startsWith l ''#'' \<and> \<not> startsWith l ''<!--'')
            (split_nl submissionsContent) \<noteq> []"
    and "api_key_set env"
    and "response env = ToolUse m"
    and "applySectionChanges indexHtml (sectionChanges m) = Inr appliedHtml"
    and valid: "validate (updateVersionString appliedHtml (versionNumber m)) = []"
    and wet: "\<not> DRY_RUN env"
  shows "(versionType m = ''MAJOR''
            \<and> \<not> io_fails env (CopyFile INDEX (ARCHIVE (getCurrentVersion indexHtml))) \<longrightarrow>
          (\<exists>rest. log (final (main env d0))
                     = CopyFile INDEX (ARCHIVE (getCurrentVersion indexHtml)) # rest
                \<and> (\<forall>e\<in>set rest. \<not> archive_write e))
          \<and> (shell_safe (commit_message (versionNumber m) (summary m)) \<longrightarrow>
               disk (final (main env d0)) (ARCHIVE (getCurrentVersion indexHtml)) = Some indexHtml))
       \<and> (versionType m = ''MAJOR''
            \<and> io_fails env (CopyFile INDEX (ARCHIVE (getCurrentVersion indexHtml))) \<longrightarrow>
          final (main env d0) = \<lparr>disk = d0, log = []\<rparr> \<and> status (main env d0) = FatalError)
       \<and> (versionType m \<noteq> ''MAJOR'' \<longrightarrow>
          (\<forall>e\<in>set (log (final (main env d0))). \<not> archive_write e)
          \<and> (shell_safe (commit_message (versionNumber m) (summary m)) \<longrightarrow>
               (\<forall>v. disk (final (main env d0)) (ARCHIVE v) = d0 (ARCHIVE v))))"
proof -
  let ?w0 = "\<lparr>disk = d0, log = []\<rparr>"
  let ?cv = "getCurrentVersion indexHtml"
  let ?new = "updateVersionString appliedHtml (versionNumber m)"
  let ?safe = "shell_safe (commit_message (versionNumber m) (summary m))"
  have run: "main env d0 = persist env ?cv m ?new ?w0"
    using valid wet by (simp add: main_reaches_validation [OF assms(1-8)] Let_def)
  have major_ok: "(\<exists>rest. log (final (main env d0)) = CopyFile INDEX (ARCHIVE ?cv) # rest
                \<and> (\<forall>e\<in>set rest. \<not> archive_write e))
          \<and> (?safe \<longrightarrow> disk (final (main env d0)) (ARCHIVE ?cv) = Some indexHtml)"
    if major: "versionType m = ''MAJOR''" and ok: "\<not> io_fails env (CopyFile INDEX (ARCHIVE ?cv))"
  proof -
    let ?w1 = "\<lparr>disk = d0(ARCHIVE ?cv \<mapsto> indexHtml), log = [CopyFile INDEX (ARCHIVE ?cv)]\<rparr>"
    have "perform (io_fails env) (CopyFile INDEX (ARCHIVE ?cv)) ?w0 = Some ?w1"
      using ok assms(4) by (simp add: perform_def)
    with major run have "main env d0 = write_files env m ?new ?w1"
      by (simp add: persist_def)
    with write_files_log [of env m ?new ?w1] show ?thesis by auto
  qed
  have major_fail: "final (main env d0) = ?w0 \<and> status (main env d0) = FatalError"
    if major: "versionType m = ''MAJOR''" and bad: "io_fails env (CopyFile INDEX (ARCHIVE ?cv))"
  proof -
    have "perform (io_fails env) (CopyFile INDEX (ARCHIVE ?cv)) ?w0 = None"
      using bad by (simp add: perform_def)
    with major run show ?thesis by (simp add: persist_def stop_def)
  qed
  have minor: "(\<forall>e\<in>set (log (final (main env d0))). \<not> archive_write e)
          \<and> (?safe \<longrightarrow> (\<forall>v. disk (final (main env d0)) (ARCHIVE v) = d0 (ARCHIVE v)))"
    if "versionType m \<noteq> ''MAJOR''"
  proof -
    from that run have "main env d0 = write_files env m ?new ?w0" by (simp add: persist_def)
    with write_files_log [of env m ?new ?w0] show ?thesis by auto
  qed
  from major_ok major_fail minor show ?thesis by blast
qed

theorem archival_gating_witness:
  "hd (log (final (main (example_env False (example_mutation ''1.00'' ''MAJOR'')) (example_disk valid_document))))
     = CopyFile INDEX (ARCHIVE ''0.07'')
   \<and> disk (final (main (example_env False (example_mutation ''1.00'' ''MAJOR'')) (example_disk valid_document)))
       (ARCHIVE ''0.07'') = Some valid_document"
proof -
  let ?m = "example_mutation ''1.00'' ''MAJOR''"
  let ?env = "example_env False ?m"
  let ?d0 = "example_disk valid_document"
  have f1: "?d0 DNA = Some ''rules''" by (simp add: example_disk_def)
  have f2: "?d0 REFERENCE = Some ''reference''" by (simp add: example_disk_def)
  have f3: "?d0 SUBMISSIONS = Some ''add a boss''" by (simp add: example_disk_def)
  have f4: "?d0 INDEX = Some valid_document" by (simp add: example_disk_def)
  have subs: "filter (\<lambda>l. trim l \<noteq> [] \<and> \<not> startsWith l ''#'' \<and> \<not> startsWith l ''<!--'')
            (split_nl ''add a boss'') \<noteq> []" by code_simp
  have key: "api_key_set ?env" by (simp add: example_env_def)
  have resp: "response ?env = ToolUse ?m" by (simp add: example_env_def)
  have app: "applySectionChanges valid_document (sectionChanges ?m) = Inr valid_document"
    by (simp add: applySectionChanges_Nil example_mutation_def)
  have ver: "versionNumber ?m = ''1.00''" by (simp add: example_mutation_def)
  have valid: "validate (updateVersionString valid_document (versionNumber ?m)) = []"
    unfolding ver valid_document_rewritten by (rule valid_document_rewritten_ok)
  have wet: "\<not> DRY_RUN ?env" by (simp add: example_env_def)
  have major: "versionType ?m = ''MAJOR''" by (simp add: example_mutation_def)
  have cv: "getCurrentVersion valid_document = ''0.07''"
    unfolding valid_document_def by code_simp
  have ok: "\<not> io_fails ?env (CopyFile INDEX (ARCHIVE (getCurrentVersion valid_document)))"
    by (simp add: example_env_def)
  have safe: "shell_safe (commit_message (versionNumber ?m) (summary ?m))"
    by (simp add: shell_safe_def commit_message_def example_mutation_def)
  from archival_gating [OF f1 f2 f3 f4 subs key resp app valid wet] major ok safe
  have "(\<exists>rest. log (final (main ?env ?d0))
                     = CopyFile INDEX (ARCHIVE (getCurrentVersion valid_document)) # rest
                \<and> (\<forall>e\<in>set rest. \<not> archive_write e))
          \<and> disk (final (main ?env ?d0)) (ARCHIVE (getCurrentVersion valid_document)) = Some valid_document"
    by blast
  then show ?thesis unfolding cv by auto
qed

theorem archival_gating_counterexample:
  "versionType (example_mutation ''1.00'' ''MAJOR'') = ''MAJOR''
   \<and> validate (updateVersionString valid_document (versionNumber (example_mutation ''1.00'' ''MAJOR''))) = []
   \<and> status (main (example_env_without_versions (example_mutation ''1.00'' ''MAJOR''))
               (example_disk valid_document)) = FatalError
   \<and> log (final (main (example_env_without_versions (example_mutation ''1.00'' ''MAJOR''))
               (example_disk valid_document))) = []
   \<and> disk (final (main (example_env_without_versions (example_mutation ''1.00'' ''MAJOR''))
               (example_disk valid_document))) (ARCHIVE ''0.07'') = None"
proof -
  let ?m = "example_mutation ''1.00'' ''MAJOR''"
  let ?env = "example_env_without_versions ?m"
  let ?d0 = "example_disk valid_document"
  have f1: "?d0 DNA = Some ''rules''" by (simp add: example_disk_def)
  have f2: "?d0 REFERENCE = Some ''reference''" by (simp add: example_disk_def)
  have f3: "?d0 SUBMISSIONS = Some ''add a boss''" by (simp add: example_disk_def)
  have f4: "?d0 INDEX = Some valid_document" by (simp add: example_disk_def)
  have subs: "filter (\<lambda>l. trim l \<noteq> [] \<and> \<not> startsWith l ''#'' \<and> \<not> startsWith l ''<!--'')
            (split_nl ''add a boss'') \<noteq> []" by code_simp
  have key: "api_key_set ?env" by (simp add: example_env_without_versions_def)
  have resp: "response ?env = ToolUse ?m" by (simp add: example_env_without_versions_def)
  have app: "applySectionChanges valid_document (sectionChanges ?m) = Inr valid_document"
    by (simp add: applySectionChanges_Nil example_mutation_def)
  have ver: "versionNumber ?m = ''1.00''" by (simp add: example_mutation_def)
  have valid: "validate (updateVersionString valid_document (versionNumber ?m)) = []"
    unfolding ver valid_document_rewritten by (rule valid_document_rewritten_ok)
  have wet: "\<not> DRY_RUN ?env" by (simp add: example_env_without_versions_def)
  have major: "versionType ?m = ''MAJOR''" by (simp add: example_mutation_def)
  have run: "main ?env ?d0 =
      persist ?env (getCurrentVersion valid_document) ?m
        (updateVersionString valid_document (versionNumber ?m)) \<lparr>disk = ?d0, log = []\<rparr>"
    using valid wet by (simp add: main_reaches_validation [OF f1 f2 f3 f4 subs key resp app] Let_def)
  have "perform (io_fails ?env) (CopyFile INDEX (ARCHIVE (getCurrentVersion valid_document)))
          \<lparr>disk = ?d0, log = []\<rparr> = None"
    by (simp add: perform_def example_env_without_versions_def)
  with major run have out: "main ?env ?d0 = stop FatalError \<lparr>disk = ?d0, log = []\<rparr>"
    by (simp add: persist_def)
  have "?d0 (ARCHIVE ''0.07'') = None" by (simp add: example_disk_def)
  with out major valid show ?thesis by (simp add: stop_def)
qed

end
